theory Spec2Isabelle
  imports Complex_Main
begin

section \<open>Python values\<close>

text \<open>
  The repository holds three scripts that poll a storage-array REST API:
  \<^verbatim>\<open>uniVmax_rdf.py\<close> (a client with pagination), \<^verbatim>\<open>rdf.py\<close> (batches written to JSON and
  CSV files) and \<^verbatim>\<open>rdf_sql.py\<close> (a collector loop writing to MySQL).

  An exception is a value: a function that can raise returns \<open>py_exn + 'a\<close>, with
  \<open>Inl\<close> the exception. \<open>str_exn\<close> is Python's \<^verbatim>\<open>str(e)\<close>. The exceptions whose text the
  scripts print or store come from the requests of the environment; the texts of the
  exceptions raised by the operations below are shortened, and nothing reads them.
\<close>

datatype exn_kind =
    ValueError | TypeError | KeyError | AttributeError | JSONDecodeError
  | HTTPError int | RequestException | OSError | DatabaseError

datatype py_exn = Exn (kind: exn_kind) (message: string)

definition str_exn :: "py_exn \<Rightarrow> string" where
  "str_exn e = message e"

text \<open>
  What \<^verbatim>\<open>response.json()\<close> returns. A \<open>JDict\<close> lists the items of the dictionary in
  order, each key once; \<open>JStr\<close> also stands for the strings the scripts build
  themselves. \<open>JFloat\<close> holds a finite float; no function below computes with one.
\<close>

datatype json =
    JNull
  | JBool bool
  | JInt int
  | JFloat real
  | JStr string
  | JList "json list"
  | JDict "(string \<times> json) list"

text \<open>Truth value of an object in a condition (\<^verbatim>\<open>if x\<close>, \<^verbatim>\<open>a and x\<close>).\<close>

fun truthy :: "json \<Rightarrow> bool" where
  "truthy JNull = False"
| "truthy (JBool b) = b"
| "truthy (JInt i) = (i \<noteq> 0)"
| "truthy (JFloat r) = (r \<noteq> 0)"
| "truthy (JStr s) = (s \<noteq> [])"
| "truthy (JList xs) = (xs \<noteq> [])"
| "truthy (JDict d) = (d \<noteq> [])"

fun starts_with :: "string \<Rightarrow> string \<Rightarrow> bool" where
  "starts_with s [] = True"
| "starts_with [] (c # cs) = False"
| "starts_with (x # xs) (c # cs) = (x = c \<and> starts_with xs cs)"

fun str_contains :: "string \<Rightarrow> string \<Rightarrow> bool" where
  "str_contains [] sub = (sub = [])"
| "str_contains (x # xs) sub = (starts_with (x # xs) sub \<or> str_contains xs sub)"

text \<open>
  \<^verbatim>\<open>k in v\<close> for a string \<open>k\<close>: a key of a dictionary, an element of a list, a substring
  of a string; a TypeError on anything else.
\<close>

fun py_contains :: "string \<Rightarrow> json \<Rightarrow> py_exn + bool" where
  "py_contains k (JDict d) = Inr (k \<in> set (map fst d))"
| "py_contains k (JList xs) = Inr (JStr k \<in> set xs)"
| "py_contains k (JStr s) = Inr (str_contains s k)"
| "py_contains k v = Inl (Exn TypeError ''argument is not iterable'')"

text \<open>\<^verbatim>\<open>v[k]\<close> for a string \<open>k\<close>: only a dictionary can be indexed by a string.\<close>

fun py_getitem :: "json \<Rightarrow> string \<Rightarrow> py_exn + json" where
  "py_getitem (JDict d) k = (case map_of d k of None \<Rightarrow> Inl (Exn KeyError k) | Some v \<Rightarrow> Inr v)"
| "py_getitem (JList xs) k = Inl (Exn TypeError ''list indices must be integers or slices, not str'')"
| "py_getitem (JStr s) k = Inl (Exn TypeError ''string indices must be integers, not str'')"
| "py_getitem v k = Inl (Exn TypeError ''object is not subscriptable'')"

text \<open>\<^verbatim>\<open>v.get(k, dflt)\<close>: only a dictionary has the method.\<close>

fun py_get :: "json \<Rightarrow> string \<Rightarrow> json \<Rightarrow> py_exn + json" where
  "py_get (JDict d) k dflt = Inr (case map_of d k of None \<Rightarrow> dflt | Some v \<Rightarrow> v)"
| "py_get v k dflt = Inl (Exn AttributeError ''object has no attribute get'')"

definition dict_get :: "(string \<times> json) list \<Rightarrow> string \<Rightarrow> json \<Rightarrow> json" where
  "dict_get d k dflt = (case map_of d k of None \<Rightarrow> dflt | Some v \<Rightarrow> v)"

text \<open>
  The elements a \<^verbatim>\<open>for\<close> loop or \<^verbatim>\<open>list.extend\<close> draws from a value: the elements of a
  list, the characters of a string, the keys of a dictionary.
\<close>

fun py_iter :: "json \<Rightarrow> py_exn + json list" where
  "py_iter (JList xs) = Inr xs"
| "py_iter (JStr s) = Inr (map (\<lambda>c. JStr [c]) s)"
| "py_iter (JDict d) = Inr (map (\<lambda>kv. JStr (fst kv)) d)"
| "py_iter v = Inl (Exn TypeError ''object is not iterable'')"

fun py_len :: "json \<Rightarrow> py_exn + nat" where
  "py_len (JList xs) = Inr (length xs)"
| "py_len (JStr s) = Inr (length s)"
| "py_len (JDict d) = Inr (length d)"
| "py_len v = Inl (Exn TypeError ''object has no len()'')"

text \<open>Decimal text of an integer, as an f-string prints it.\<close>

definition digit_char :: "nat \<Rightarrow> char" where
  "digit_char d = ''0123456789'' ! d"

function str_nat :: "nat \<Rightarrow> string" where
  "str_nat n = (if n < 10 then [digit_char n] else str_nat (n div 10) @ [digit_char (n mod 10)])"
  by pat_completeness auto
termination
  by (relation "measure id") auto

declare str_nat.simps [simp del]

definition str_int :: "int \<Rightarrow> string" where
  "str_int i = (if i < 0 then CHR ''-'' # str_nat (nat (- i)) else str_nat (nat i))"

text \<open>
  An HTTP response as the scripts read it: the status code and what \<^verbatim>\<open>.json()\<close> gives,
  an exception when the body is not JSON. A request that raises (timeout, refused
  connection) is an \<open>Inl\<close> reply.
\<close>

record response =
  status_code :: int
  json_body :: "py_exn + json"

type_synonym reply = "py_exn + response"

text \<open>
  A \<^verbatim>\<open>for\<close> loop whose body writes events and may raise: the loop stops at the first
  exception and keeps what was written before it.
\<close>

fun for_each :: "('a \<Rightarrow> 'e list \<times> py_exn option) \<Rightarrow> 'a list \<Rightarrow> 'e list \<times> py_exn option" where
  "for_each body [] = ([], None)"
| "for_each body (x # xs) =
     (case body x of
        (ev, Some e) \<Rightarrow> (ev, Some e)
      | (ev, None) \<Rightarrow> (case for_each body xs of (ev', r) \<Rightarrow> (ev @ ev', r)))"

section \<open>The API client: the paginated GET\<close>

text \<open>
  \<^verbatim>\<open>VMAXClient._get_paginated(url, params=None, limit=1000)\<close>. The session answers the
  \<open>n\<close>-th request of the call as a function of the query parameters sent with it. The
  loop has no bound of its own: a server that always names a next page keeps it
  running, so the loop is a partial function and \<open>None\<close> is that it never returns.

  \<open>raise_for_status\<close> is the one of the requests library: an HTTPError for a status
  from 400 to 599.
\<close>

type_synonym params = "string \<rightharpoonup> json"
type_synonym session = "nat \<Rightarrow> params \<Rightarrow> reply"

definition raise_for_status :: "response \<Rightarrow> py_exn option" where
  "raise_for_status response =
     (if 400 \<le> status_code response \<and> status_code response < 600
      then Some (Exn (HTTPError (status_code response)) (str_int (status_code response) @ '' Error''))
      else None)"

definition is_dict :: "json \<Rightarrow> bool" where
  "is_dict v = (case v of JDict d \<Rightarrow> True | _ \<Rightarrow> False)"

partial_function (option) paginate ::
  "session \<Rightarrow> nat \<Rightarrow> params \<Rightarrow> json list \<Rightarrow> (py_exn + json) option" where
  "paginate session_get n params results =
     (case session_get n params of
        Inl e \<Rightarrow> Some (Inl e)
      | Inr response \<Rightarrow>
        (case raise_for_status response of
           Some e \<Rightarrow> Some (Inl e)
         | None \<Rightarrow>
           (case json_body response of
              Inl e \<Rightarrow> Some (Inl e)
            | Inr data \<Rightarrow>
              if is_dict data \<and> py_contains ''resultList'' data = Inr True then
                (case py_getitem data ''resultList'' of
                   Inl e \<Rightarrow> Some (Inl e)
                 | Inr result_list \<Rightarrow>
                   (case py_getitem result_list ''result'' of
                      Inl e \<Rightarrow> Some (Inl e)
                    | Inr result \<Rightarrow>
                      (case py_iter result of
                         Inl e \<Rightarrow> Some (Inl e)
                       | Inr items \<Rightarrow>
                         (case py_contains ''nextPageKey'' result_list of
                            Inl e \<Rightarrow> Some (Inl e)
                          | Inr has_key \<Rightarrow>
                            if has_key then
                              (case py_getitem result_list ''nextPageKey'' of
                                 Inl e \<Rightarrow> Some (Inl e)
                               | Inr key \<Rightarrow>
                                 if truthy key
                                 then paginate session_get (Suc n) (params(''pageKey'' \<mapsto> key)) (results @ items)
                                 else Some (Inr (JList (results @ items))))
                            else Some (Inr (JList (results @ items)))))))
              else Some (Inr data))))"

declare paginate.simps [code]

text \<open>
  \<^verbatim>\<open>if params is None: params = {}\<close> and \<^verbatim>\<open>params['pageSize'] = limit\<close>: the parameters of
  the first request.
\<close>

definition first_params :: "params option \<Rightarrow> int \<Rightarrow> params" where
  "first_params params limit =
     (case params of None \<Rightarrow> Map.empty | Some p \<Rightarrow> p)(''pageSize'' \<mapsto> JInt limit)"

definition get_paginated :: "session \<Rightarrow> params option \<Rightarrow> int \<Rightarrow> (py_exn + json) option" where
  "get_paginated session_get params limit = paginate session_get 0 (first_params params limit) []"

section \<open>The batch scheduler\<close>

text \<open>
  \<^verbatim>\<open>rdf.py\<close>. The module constants, then \<^verbatim>\<open>get_rdf_status\<close>, \<^verbatim>\<open>process_batch\<close> and the
  part of \<^verbatim>\<open>main\<close> that follows the inventory request. Targets are strings.
\<close>

definition UNISPHERE_IP :: string where "UNISPHERE_IP = ''your_unisphere_ip''"
definition SYMMETRIX_ID :: string where "SYMMETRIX_ID = ''000123456789''"
definition BATCH_SIZE :: int where "BATCH_SIZE = 20"
definition OUTPUT_DIR :: string where "OUTPUT_DIR = ''/tmp/rdf_reports''"

definition rdf_url :: "string \<Rightarrow> string" where
  "rdf_url sg_name =
     ''https://'' @ UNISPHERE_IP @ ''/univmax/restapi/90/replication/symmetrix/''
       @ SYMMETRIX_ID @ ''/storagegroup/'' @ sg_name @ ''/rdf''"

text \<open>
  \<^verbatim>\<open>get_rdf_status(sg_name)\<close>: the whole body after the URL is inside
  \<^verbatim>\<open>try ... except Exception\<close>, so the request raising and \<^verbatim>\<open>.json()\<close> raising both end
  in the \<^verbatim>\<open>except\<close> branch and the function returns a dictionary on every path.
  \<open>session_get\<close> is the reply of \<^verbatim>\<open>session.get(url, timeout=30)\<close> for each URL.
\<close>

definition get_rdf_status :: "(string \<Rightarrow> reply) \<Rightarrow> string \<Rightarrow> json" where
  "get_rdf_status session_get sg_name =
     (case session_get (rdf_url sg_name) of
        Inl e \<Rightarrow> JDict [(sg_name, JStr (''Exception: '' @ str_exn e))]
      | Inr response \<Rightarrow>
          if status_code response = 200 then
            (case json_body response of
               Inl e \<Rightarrow> JDict [(sg_name, JStr (''Exception: '' @ str_exn e))]
             | Inr body \<Rightarrow> JDict [(sg_name, body)])
          else JDict [(sg_name, JStr (''Error: '' @ str_int (status_code response)))])"

text \<open>
  What a run does to the outside, in order. The workers of one batch run concurrently;
  their requests are listed in the order of the batch, before anything the batch
  writes, since the pool is drained before the files are opened.
\<close>

datatype event =
    Print string
  | Fetch string
  | Open_file string
  | Json_dump json
  | Csv_row "json list"
  | Close_file string
  | Sleep int

text \<open>
  The environment of a run: the replies of the server while batch number \<open>n\<close> is
  fetched, the text \<^verbatim>\<open>time.strftime\<close> gives to batch \<open>n\<close>, and which paths
  \<^verbatim>\<open>open(path, 'w')\<close> can open.
\<close>

record env =
  http_get :: "nat \<Rightarrow> string \<Rightarrow> reply"
  strftime :: "nat \<Rightarrow> string"
  can_open :: "string \<Rightarrow> bool"

text \<open>\<^verbatim>\<open>results = list(executor.map(get_rdf_status, batch))\<close>: results in the order of the batch.\<close>

definition batch_results :: "(string \<Rightarrow> reply) \<Rightarrow> string list \<Rightarrow> json list" where
  "batch_results session_get batch = map (get_rdf_status session_get) batch"

definition csv_header :: "json list" where
  "csv_header = [JStr ''Storage Group'', JStr ''RDFG Number'', JStr ''State'', JStr ''Mode'', JStr ''Status'']"

text \<open>
  The CSV loops. \<^verbatim>\<open>rdf_group.get\<close> needs a dictionary; the value under
  \<^verbatim>\<open>'rdfGroupInfo'\<close> is iterated whatever it is. Nothing catches an exception here.
\<close>

definition csv_group :: "string \<Rightarrow> json \<Rightarrow> event list \<times> py_exn option" where
  "csv_group sg rdf_group =
     (case rdf_group of
        JDict g \<Rightarrow>
          ([Csv_row [JStr sg, dict_get g ''rdfgNumber'' JNull, dict_get g ''state'' JNull,
                     dict_get g ''mode'' JNull, dict_get g ''status'' JNull]], None)
      | _ \<Rightarrow> ([], Some (Exn AttributeError ''object has no attribute get'')))"

definition csv_item :: "string \<times> json \<Rightarrow> event list \<times> py_exn option" where
  "csv_item item =
     (case snd item of
        JDict data \<Rightarrow>
          (case py_iter (dict_get data ''rdfGroupInfo'' (JList [])) of
             Inl e \<Rightarrow> ([], Some e)
           | Inr groups \<Rightarrow> for_each (csv_group (fst item)) groups)
      | _ \<Rightarrow> ([], None))"

definition csv_result :: "json \<Rightarrow> event list \<times> py_exn option" where
  "csv_result result =
     (case result of
        JDict items \<Rightarrow> for_each csv_item items
      | _ \<Rightarrow> ([], Some (Exn AttributeError ''object has no attribute items'')))"

definition output_file :: "nat \<Rightarrow> string \<Rightarrow> string" where
  "output_file batch_num timestamp =
     OUTPUT_DIR @ ''/rdf_batch_'' @ str_nat batch_num @ ''_'' @ timestamp @ ''.json''"

definition csv_file :: "nat \<Rightarrow> string \<Rightarrow> string" where
  "csv_file batch_num timestamp =
     OUTPUT_DIR @ ''/rdf_summary_'' @ str_nat batch_num @ ''_'' @ timestamp @ ''.csv''"

text \<open>
  \<^verbatim>\<open>process_batch(batch, batch_num)\<close>: the events and either the exception that left
  the function or the value of \<^verbatim>\<open>len(results)\<close>. A \<^verbatim>\<open>with\<close> block closes its file also
  when its body raises.
\<close>

definition process_batch :: "env \<Rightarrow> string list \<Rightarrow> nat \<Rightarrow> event list \<times> (py_exn + nat)" where
  "process_batch env batch batch_num =
     (let timestamp = strftime env batch_num;
          results = batch_results (http_get env batch_num) batch;
          fetched = map (\<lambda>sg. Fetch (rdf_url sg)) batch;
          dumped = fetched @ [Open_file (output_file batch_num timestamp), Json_dump (JList results),
                              Close_file (output_file batch_num timestamp)]
      in if \<not> can_open env (output_file batch_num timestamp)
         then (fetched, Inl (Exn OSError (output_file batch_num timestamp)))
         else if \<not> can_open env (csv_file batch_num timestamp)
         then (dumped, Inl (Exn OSError (csv_file batch_num timestamp)))
         else
           (case for_each csv_result results of
              (rows, Some e) \<Rightarrow>
                (dumped @ [Open_file (csv_file batch_num timestamp), Csv_row csv_header] @ rows
                   @ [Close_file (csv_file batch_num timestamp)], Inl e)
            | (rows, None) \<Rightarrow>
                (dumped @ [Open_file (csv_file batch_num timestamp), Csv_row csv_header] @ rows
                   @ [Close_file (csv_file batch_num timestamp)], Inr (length results))))"

subsection \<open>Splitting the targets into batches\<close>

text \<open>
  \<^verbatim>\<open>batches = [storage_groups[i:i + BATCH_SIZE]
             for i in range(0, len(storage_groups), BATCH_SIZE)]\<close>

  \<open>py_range i n step\<close> is \<^verbatim>\<open>range(i, n, step)\<close> for a step that is not negative;
  Python refuses the step 0 with a ValueError, which \<open>split_batches\<close> returns, and a
  negative step from 0 upwards gives the empty range. \<open>py_slice xs i j\<close> is
  \<^verbatim>\<open>xs[i:j]\<close> for indices that are not negative: a slice is cut at the end of the list.
\<close>

function py_range :: "nat \<Rightarrow> nat \<Rightarrow> nat \<Rightarrow> nat list" where
  "py_range i n step = (if step = 0 \<or> n \<le> i then [] else i # py_range (i + step) n step)"
  by pat_completeness auto
termination
  by (relation "measure (\<lambda>(i, n, step). n - i)") auto

declare py_range.simps [simp del]

definition py_slice :: "'a list \<Rightarrow> nat \<Rightarrow> nat \<Rightarrow> 'a list" where
  "py_slice xs i j = drop i (take j xs)"

definition split_batches :: "int \<Rightarrow> 'a list \<Rightarrow> py_exn + 'a list list" where
  "split_batches B xs =
     (if B = 0 then Inl (Exn ValueError ''range() arg 3 must not be zero'')
      else if B < 0 then Inr []
      else Inr (map (\<lambda>i. py_slice xs i (i + nat B)) (py_range 0 (length xs) (nat B))))"

subsection \<open>The loop over the batches\<close>

text \<open>
  \<^verbatim>\<open>for i, batch in enumerate(batches, 1): ...\<close> with \<open>n_batches\<close> the value of
  \<^verbatim>\<open>len(batches)\<close>. An exception of \<^verbatim>\<open>process_batch\<close> is not caught: it ends the loop.
\<close>

definition processing_line :: "nat \<Rightarrow> nat \<Rightarrow> nat \<Rightarrow> event" where
  "processing_line i n_batches size_of_batch =
     Print (''Processing batch '' @ str_nat i @ '' of '' @ str_nat n_batches @ '' with ''
            @ str_nat size_of_batch @ '' groups'')"

definition completed_line :: "nat \<Rightarrow> nat \<Rightarrow> event" where
  "completed_line i processed =
     Print (''Completed batch '' @ str_nat i @ '', processed '' @ str_nat processed @ '' groups'')"

fun run_batches :: "env \<Rightarrow> nat \<Rightarrow> nat \<Rightarrow> string list list \<Rightarrow> event list \<times> py_exn option" where
  "run_batches env n_batches i [] = ([], None)"
| "run_batches env n_batches i (batch # rest) =
     (case process_batch env batch i of
        (ev, Inl e) \<Rightarrow> (processing_line i n_batches (length batch) # ev, Some e)
      | (ev, Inr processed) \<Rightarrow>
          (case run_batches env n_batches (Suc i) rest of
             (ev', r) \<Rightarrow>
               (processing_line i n_batches (length batch) # ev @ [completed_line i processed]
                  @ (if i < n_batches then [Sleep 10] else []) @ ev', r)))"

text \<open>\<^verbatim>\<open>main\<close> from the split onwards, for the list of names the inventory gave.\<close>

definition main_rdf :: "env \<Rightarrow> string list \<Rightarrow> event list \<times> py_exn option" where
  "main_rdf env storage_groups =
     (case split_batches BATCH_SIZE storage_groups of
        Inl e \<Rightarrow> ([], Some e)
      | Inr batches \<Rightarrow> run_batches env (length batches) 1 batches)"

section \<open>The collector loop with the relational sink\<close>

text \<open>
  \<^verbatim>\<open>rdf_sql.py\<close>. A target is whatever iterating the inventory's \<^verbatim>\<open>'name'\<close> value
  yields, so it is a \<open>json\<close> value; the reply to the request for a target is given per
  target, the URL being a function of it.
\<close>

datatype datetime = Datetime string

text \<open>The fourteen values \<^verbatim>\<open>create_rdf_status_record\<close> passes to \<^verbatim>\<open>cursor.execute\<close>.\<close>

record row =
  collection_time :: datetime
  symmetrix_id :: string
  storage_group :: json
  rdf_group_number :: json
  rdf_state :: json
  rdf_mode :: json
  rdf_status :: json
  volume_config :: json
  ra_group :: json
  ra_capacity :: json
  consistency_state :: json
  last_sync_time :: "datetime option"
  is_protected :: json
  is_consistent :: json

text \<open>The lines printed, by their template and the values put into it.\<close>

datatype log_line =
    Failed_to_get int
  | Found nat
  | Starting_collection
  | Completed_collection nat
  | Next_collection real
  | Error_processing json json
  | Exception_processing json py_exn

datatype sql_event =
    Get_inventory
  | Poll json
  | Db_connect
  | Db_insert row
  | Db_commit
  | Db_close
  | Log log_line
  | Time_sleep real

text \<open>
  How a run of \<^verbatim>\<open>main\<close> stands after a number of passes: it returned, an exception
  left it, or the loop is still running.
\<close>

datatype outcome = Returned | Raised py_exn | Running

text \<open>
  The environment: the configured interval (3600 in the file), the reply to the
  inventory request, the replies to the polls of pass \<open>n\<close>, whether connecting, executing
  an insert or committing raises in pass \<open>n\<close>, the successive readings of
  \<^verbatim>\<open>time.time()\<close> (a float in Python, a real number here), the collection time of pass
  \<open>n\<close>, and \<^verbatim>\<open>datetime.strptime\<close> with the format of the file.
\<close>

record sql_env =
  collection_interval :: real
  inventory_reply :: reply
  fetch :: "nat \<Rightarrow> json \<Rightarrow> reply"
  connect_error :: "nat \<Rightarrow> py_exn option"
  execute_error :: "nat \<Rightarrow> row \<Rightarrow> py_exn option"
  commit_error :: "nat \<Rightarrow> py_exn option"
  time_time :: "nat \<Rightarrow> real"
  datetime_now :: "nat \<Rightarrow> datetime"
  strptime :: "string \<Rightarrow> py_exn + datetime"

definition COLLECTION_INTERVAL :: real where "COLLECTION_INTERVAL = 3600"

text \<open>\<^verbatim>\<open>get_rdf_status(session, sg_name)\<close> of this file: it returns the body itself.\<close>

definition get_rdf_status_sql :: "(json \<Rightarrow> reply) \<Rightarrow> json \<Rightarrow> json" where
  "get_rdf_status_sql session_get sg_name =
     (case session_get sg_name of
        Inl e \<Rightarrow> JDict [(''error'', JStr (str_exn e))]
      | Inr response \<Rightarrow>
          if status_code response = 200 then
            (case json_body response of
               Inl e \<Rightarrow> JDict [(''error'', JStr (str_exn e))]
             | Inr body \<Rightarrow> body)
          else JDict [(''error'', JStr (''HTTP '' @ str_int (status_code response)))])"

text \<open>
  \<^verbatim>\<open>datetime.strptime(last_sync, ...) if last_sync else None\<close>: \<^verbatim>\<open>strptime\<close> takes a
  string only.
\<close>

definition parse_last_sync :: "sql_env \<Rightarrow> json \<Rightarrow> py_exn + datetime option" where
  "parse_last_sync env last_sync =
     (if truthy last_sync then
        (case last_sync of
           JStr s \<Rightarrow> (case strptime env s of Inl e \<Rightarrow> Inl e | Inr t \<Rightarrow> Inr (Some t))
         | _ \<Rightarrow> Inl (Exn TypeError ''strptime() argument 1 must be str''))
      else Inr None)"

text \<open>
  \<^verbatim>\<open>create_rdf_status_record(cursor, collection_time, sg_name, rdf_data)\<close>: the insert
  that was executed, or the exception.
\<close>

definition create_rdf_status_record ::
  "sql_env \<Rightarrow> nat \<Rightarrow> datetime \<Rightarrow> json \<Rightarrow> json \<Rightarrow> sql_event list \<times> py_exn option" where
  "create_rdf_status_record env pass collection_time' sg_name rdf_data =
     (case rdf_data of
        JDict d \<Rightarrow>
          (case parse_last_sync env (dict_get d ''lastSyncTime'' JNull) of
             Inl e \<Rightarrow> ([], Some e)
           | Inr last_sync_time' \<Rightarrow>
               (let r = \<lparr>collection_time = collection_time',
                         symmetrix_id = SYMMETRIX_ID,
                         storage_group = sg_name,
                         rdf_group_number = dict_get d ''rdfgNumber'' JNull,
                         rdf_state = dict_get d ''state'' JNull,
                         rdf_mode = dict_get d ''mode'' JNull,
                         rdf_status = dict_get d ''status'' JNull,
                         volume_config = dict_get d ''volumeConfig'' JNull,
                         ra_group = dict_get d ''raGroup'' JNull,
                         ra_capacity = dict_get d ''raCapacity'' JNull,
                         consistency_state = dict_get d ''consistencyState'' JNull,
                         last_sync_time = last_sync_time',
                         is_protected = dict_get d ''protected'' (JBool False),
                         is_consistent = dict_get d ''consistent'' (JBool False)\<rparr>
                in case execute_error env pass r of
                     Some e \<Rightarrow> ([], Some e)
                   | None \<Rightarrow> ([Db_insert r], None)))
      | _ \<Rightarrow> ([], Some (Exn AttributeError ''object has no attribute get'')))"

text \<open>
  The body of \<^verbatim>\<open>for future in futures\<close> for one target: the \<^verbatim>\<open>try\<close> block with its
  \<^verbatim>\<open>except Exception\<close>, which catches everything raised in it. The flag is whether
  \<^verbatim>\<open>processed += 1\<close> was reached.
\<close>

definition store_result ::
  "sql_env \<Rightarrow> nat \<Rightarrow> datetime \<Rightarrow> json \<Rightarrow> json \<Rightarrow> sql_event list \<times> bool" where
  "store_result env pass collection_time' sg_name result =
     (case py_contains ''rdfGroupInfo'' result of
        Inl e \<Rightarrow> ([Log (Exception_processing sg_name e)], False)
      | Inr has_info \<Rightarrow>
          if has_info then
            (case py_getitem result ''rdfGroupInfo'' of
               Inl e \<Rightarrow> ([Log (Exception_processing sg_name e)], False)
             | Inr info \<Rightarrow>
                 (case py_iter info of
                    Inl e \<Rightarrow> ([Log (Exception_processing sg_name e)], False)
                  | Inr groups \<Rightarrow>
                      (case for_each (create_rdf_status_record env pass collection_time' sg_name) groups of
                         (ev, Some e) \<Rightarrow> (ev @ [Log (Exception_processing sg_name e)], False)
                       | (ev, None) \<Rightarrow> (ev, True))))
          else
            (case py_get result ''error'' (JStr ''Unknown error'') of
               Inl e \<Rightarrow> ([Log (Exception_processing sg_name e)], False)
             | Inr msg \<Rightarrow> ([Log (Error_processing sg_name msg)], False)))"

text \<open>
  \<^verbatim>\<open>process_storage_groups(storage_groups)\<close> in pass number \<open>pass\<close>. The polls are
  submitted together and run concurrently with the inserts of the main thread; they
  are listed first, in the order of submission.
\<close>

definition process_storage_groups ::
  "sql_env \<Rightarrow> nat \<Rightarrow> json \<Rightarrow> sql_event list \<times> (py_exn + nat)" where
  "process_storage_groups env pass storage_groups =
     (case connect_error env pass of
        Some e \<Rightarrow> ([], Inl e)
      | None \<Rightarrow>
          (case py_iter storage_groups of
             Inl e \<Rightarrow> ([Db_connect], Inl e)
           | Inr sgs \<Rightarrow>
               (let stored = map (\<lambda>sg. store_result env pass (datetime_now env pass) sg
                                          (get_rdf_status_sql (fetch env pass) sg)) sgs;
                    ev = Db_connect # map Poll sgs @ concat (map fst stored)
                in case commit_error env pass of
                     Some e \<Rightarrow> (ev, Inl e)
                   | None \<Rightarrow> (ev @ [Db_commit, Db_close], Inr (length (filter snd stored))))))"

text \<open>
  \<^verbatim>\<open>while True:\<close> of \<^verbatim>\<open>main\<close>, run for at most \<open>fuel\<close> passes; the loop has no exit
  of its own, so after \<open>fuel\<close> passes the outcome is \<open>Running\<close>. Pass \<open>n\<close> (from 0) reads
  the clock twice, readings \<open>2n\<close> and \<open>2n + 1\<close>.
\<close>

fun collector_loop :: "sql_env \<Rightarrow> json \<Rightarrow> nat \<Rightarrow> nat \<Rightarrow> sql_event list \<times> outcome" where
  "collector_loop env storage_groups pass 0 = ([], Running)"
| "collector_loop env storage_groups pass (Suc fuel) =
     (let start_time = time_time env (2 * pass)
      in case process_storage_groups env pass storage_groups of
           (ev, Inl e) \<Rightarrow> (Log Starting_collection # ev, Raised e)
         | (ev, Inr processed) \<Rightarrow>
             (let processing_time = time_time env (2 * pass + 1) - start_time;
                  sleep_time = max 0 (collection_interval env - processing_time)
              in case collector_loop env storage_groups (Suc pass) fuel of
                   (ev', out) \<Rightarrow>
                     (Log Starting_collection # ev
                        @ [Log (Completed_collection processed), Log (Next_collection sleep_time),
                           Time_sleep sleep_time] @ ev', out)))"

definition main_sql :: "sql_env \<Rightarrow> nat \<Rightarrow> sql_event list \<times> outcome" where
  "main_sql env fuel =
     (case inventory_reply env of
        Inl e \<Rightarrow> ([Get_inventory], Raised e)
      | Inr response \<Rightarrow>
          if status_code response \<noteq> 200
          then ([Get_inventory, Log (Failed_to_get (status_code response))], Returned)
          else
            (case json_body response of
               Inl e \<Rightarrow> ([Get_inventory], Raised e)
             | Inr body \<Rightarrow>
                 (case py_get body ''name'' (JList []) of
                    Inl e \<Rightarrow> ([Get_inventory], Raised e)
                  | Inr storage_groups \<Rightarrow>
                      (case py_len storage_groups of
                         Inl e \<Rightarrow> ([Get_inventory], Raised e)
                       | Inr n \<Rightarrow>
                           (case collector_loop env storage_groups 0 fuel of
                              (ev, out) \<Rightarrow> (Get_inventory # Log (Found n) # ev, out))))))"

section \<open>Inputs and observations used to state the properties\<close>

text \<open>
  A successful response with a given body, a page of the paginated API, and a server
  that answers the requests of one call with a given list of bodies, in order,
  whatever the parameters, and refuses the connection after the last.
\<close>

definition ok_response :: "json \<Rightarrow> response" where
  "ok_response body = \<lparr>status_code = 200, json_body = Inr body\<rparr>"

definition page :: "json list \<Rightarrow> json option \<Rightarrow> json" where
  "page items key =
     JDict [(''resultList'',
        JDict ((''result'', JList items) # (case key of None \<Rightarrow> [] | Some k \<Rightarrow> [(''nextPageKey'', k)])))]"

definition scripted :: "json list \<Rightarrow> session" where
  "scripted bodies n params =
     (if n < length bodies then Inr (ok_response (bodies ! n))
      else Inl (Exn RequestException ''connection refused''))"

text \<open>
  The parameters the client sends with request \<open>i\<close> of a call when the pages before it
  named the keys \<open>key 0, ..., key (i - 1)\<close>: the first parameters, with
  \<^verbatim>\<open>params['pageKey']\<close> set to each key in turn. \<open>cursor_server\<close> is a server that answers
  by the cursor it is sent and refuses a page size other than 1000: the first page
  names the key \<open>k1\<close>, the page for \<open>k1\<close> is the last.
\<close>

definition sent_params :: "params \<Rightarrow> (nat \<Rightarrow> json) \<Rightarrow> nat \<Rightarrow> params" where
  "sent_params p key i = foldl (\<lambda>q j. q(''pageKey'' \<mapsto> key j)) p [0..<i]"

definition cursor_server :: session where
  "cursor_server n ps =
     (if ps ''pageSize'' \<noteq> Some (JInt 1000) then Inl (Exn RequestException ''bad page size'')
      else case ps ''pageKey'' of
             None \<Rightarrow> Inr (ok_response (page [JInt 1, JInt 2] (Some (JStr ''k1''))))
           | Some k \<Rightarrow>
               if k = JStr ''k1'' then Inr (ok_response (page [JInt 3] None))
               else Inl (Exn RequestException ''unknown page key''))"

text \<open>
  \<open>result_page response items key\<close>: the response passes \<^verbatim>\<open>raise_for_status\<close> and its
  body is a mapping whose \<^verbatim>\<open>'resultList'\<close> is a mapping with the list \<open>items\<close> under
  \<^verbatim>\<open>'result'\<close> and with \<open>key\<close> under \<^verbatim>\<open>'nextPageKey'\<close> (\<open>None\<close>: no such entry).
  \<open>plain_body response data\<close>: the response passes \<^verbatim>\<open>raise_for_status\<close> and its body
  \<open>data\<close> is not a mapping with a \<^verbatim>\<open>'resultList'\<close> entry.
\<close>

definition result_page :: "response \<Rightarrow> json list \<Rightarrow> json option \<Rightarrow> bool" where
  "result_page response items key =
     (raise_for_status response = None \<and>
      (case json_body response of
         Inr (JDict d) \<Rightarrow>
           (case map_of d ''resultList'' of
              Some (JDict r) \<Rightarrow> map_of r ''result'' = Some (JList items) \<and> map_of r ''nextPageKey'' = key
            | _ \<Rightarrow> False)
       | _ \<Rightarrow> False))"

definition plain_body :: "response \<Rightarrow> json \<Rightarrow> bool" where
  "plain_body response data =
     (raise_for_status response = None \<and> json_body response = Inr data \<and>
      (case data of JDict d \<Rightarrow> map_of d ''resultList'' = None | _ \<Rightarrow> True))"

text \<open>
  A server that gives the same reply to every request, and a response with a given
  status code and body.
\<close>

definition always :: "'a \<Rightarrow> 'b \<Rightarrow> 'a" where
  "always x y = x"

definition with_status :: "int \<Rightarrow> json \<Rightarrow> response" where
  "with_status code body = \<lparr>status_code = code, json_body = Inr body\<rparr>"

text \<open>
  Sample environments. The batch server refuses the request for \<open>SG2\<close> and answers
  every other target with one RDF pairing; the collector's server answers \<open>SG2\<close> with
  status 500. \<open>malformed_env\<close> answers with a body whose \<^verbatim>\<open>'rdfGroupInfo'\<close> list holds a
  number.
\<close>

definition sample_body :: json where
  "sample_body = JDict [(''rdfGroupInfo'',
     JList [JDict [(''rdfgNumber'', JInt 7), (''state'', JStr ''Synchronized''),
                   (''mode'', JStr ''Active''), (''status'', JStr ''OK'')]])]"

definition sample_get :: "string \<Rightarrow> reply" where
  "sample_get url =
     (if url = rdf_url ''SG2'' then Inl (Exn RequestException ''timed out'')
      else Inr (with_status 200 sample_body))"

definition sample_env :: env where
  "sample_env = \<lparr>http_get = always sample_get, strftime = always ''20250101_000000'',
                  can_open = always True\<rparr>"

definition sample_fetch :: "json \<Rightarrow> reply" where
  "sample_fetch sg =
     (if sg = JStr ''SG2'' then Inr (with_status 500 JNull)
      else Inr (with_status 200 sample_body))"

definition sample_clock :: "nat \<Rightarrow> real" where
  "sample_clock n = (if n = 0 then 0 else if n = 1 then 100 else if n = 2 then 3600 else 7700)"

definition parse_ok :: "string \<Rightarrow> py_exn + datetime" where
  "parse_ok s = Inr (Datetime s)"

definition sample_sql_env :: sql_env where
  "sample_sql_env =
     \<lparr>collection_interval = COLLECTION_INTERVAL,
      inventory_reply = Inr (with_status 200 (JDict [(''name'', JList [JStr ''SG1'', JStr ''SG2''])])),
      fetch = always sample_fetch,
      connect_error = always None,
      execute_error = always (always None),
      commit_error = always None,
      time_time = sample_clock,
      datetime_now = always (Datetime ''2025-01-01 00:00:00+00:00''),
      strptime = parse_ok\<rparr>"

definition malformed_env :: env where
  "malformed_env =
     \<lparr>http_get = always (always (Inr (with_status 200 (JDict [(''rdfGroupInfo'', JList [JInt 1])])))),
      strftime = always ''20250101_000000'', can_open = always True\<rparr>"

text \<open>
  A fetched value on which the CSV loop raises: a mapping whose \<^verbatim>\<open>'rdfGroupInfo'\<close>
  cannot be iterated or yields an element that is not a mapping. \<open>empty_info_sql_env\<close>
  answers every poll with a body whose \<^verbatim>\<open>'rdfGroupInfo'\<close> is the empty string.
\<close>

definition malformed :: "json \<Rightarrow> bool" where
  "malformed v =
     (case v of
        JDict d \<Rightarrow>
          (case py_iter (dict_get d ''rdfGroupInfo'' (JList [])) of
             Inl e \<Rightarrow> True
           | Inr groups \<Rightarrow> list_ex (\<lambda>g. \<not> is_dict g) groups)
      | _ \<Rightarrow> False)"

definition empty_info_sql_env :: sql_env where
  "empty_info_sql_env =
     sample_sql_env\<lparr>fetch := always (always (Inr (with_status 200 (JDict [(''rdfGroupInfo'', JStr '''')]))))\<rparr>"

text \<open>
  The pieces of the trace of the loop over the batches: whether \<^verbatim>\<open>process_batch\<close>
  returns for the batch numbered \<open>k\<close>, what a batch that returns contributes (the
  line printed before it, its own events, the line printed after it), and what a
  batch that raises contributes.
\<close>

definition batch_succeeds :: "env \<Rightarrow> nat \<times> string list \<Rightarrow> bool" where
  "batch_succeeds env kb =
     (case snd (process_batch env (snd kb) (fst kb)) of Inl e \<Rightarrow> False | Inr p \<Rightarrow> True)"

definition completed_batch :: "env \<Rightarrow> nat \<Rightarrow> nat \<times> string list \<Rightarrow> event list" where
  "completed_batch env n_batches kb =
     processing_line (fst kb) n_batches (length (snd kb))
       # fst (process_batch env (snd kb) (fst kb)) @ [completed_line (fst kb) (length (snd kb))]"

definition aborted_batch :: "env \<Rightarrow> nat \<Rightarrow> nat \<times> string list \<Rightarrow> event list" where
  "aborted_batch env n_batches kb =
     processing_line (fst kb) n_batches (length (snd kb)) # fst (process_batch env (snd kb) (fst kb))"

text \<open>
  The durations the collector slept, in order; the number of passes that return among
  the first \<open>fuel\<close> passes, counted up to the first pass that raises; and the processing
  time the loop measures in a pass, the second reading of the clock minus the first.
\<close>

fun sleeps :: "sql_event list \<Rightarrow> real list" where
  "sleeps [] = []"
| "sleeps (Time_sleep d # evs) = d # sleeps evs"
| "sleeps (ev # evs) = sleeps evs"

fun passes_completed :: "sql_env \<Rightarrow> json \<Rightarrow> nat \<Rightarrow> nat \<Rightarrow> nat" where
  "passes_completed env storage_groups pass 0 = 0"
| "passes_completed env storage_groups pass (Suc fuel) =
     (case snd (process_storage_groups env pass storage_groups) of
        Inl e \<Rightarrow> 0
      | Inr processed \<Rightarrow> Suc (passes_completed env storage_groups (Suc pass) fuel))"

definition processing_time :: "sql_env \<Rightarrow> nat \<Rightarrow> real" where
  "processing_time env pass = time_time env (2 * pass + 1) - time_time env (2 * pass)"

text \<open>The count a pass printed, 0 for a pass that raised.\<close>

definition processed_in :: "sql_env \<Rightarrow> json \<Rightarrow> nat \<Rightarrow> nat" where
  "processed_in env storage_groups pass =
     (case snd (process_storage_groups env pass storage_groups) of Inl e \<Rightarrow> 0 | Inr processed \<Rightarrow> processed)"

text \<open>
  The startup inventory request failed: it raised, or its status code is not 200.
  A loop event is any event other than the inventory request and the two lines
  printed before the loop.
\<close>

definition inventory_failed :: "sql_env \<Rightarrow> bool" where
  "inventory_failed env =
     (case inventory_reply env of Inl e \<Rightarrow> True | Inr response \<Rightarrow> status_code response \<noteq> 200)"

fun loop_event :: "sql_event \<Rightarrow> bool" where
  "loop_event Get_inventory = False"
| "loop_event (Log (Failed_to_get code)) = False"
| "loop_event (Log (Found n)) = False"
| "loop_event ev = True"

definition failing_sql_env :: sql_env where
  "failing_sql_env = sample_sql_env\<lparr>inventory_reply := Inr (with_status 503 JNull)\<rparr>"

text \<open>
  The database as the relational sink sees it, with autocommit off (the default of the
  connector): an insert is pending until the connection commits; closing the
  connection or losing it in a crash discards what is pending.
\<close>

record db =
  committed :: "row list"
  pending :: "row list"

fun db_step :: "db \<Rightarrow> sql_event \<Rightarrow> db" where
  "db_step s Db_connect = s\<lparr>pending := []\<rparr>"
| "db_step s (Db_insert r) = s\<lparr>pending := pending s @ [r]\<rparr>"
| "db_step s Db_commit = s\<lparr>committed := committed s @ pending s, pending := []\<rparr>"
| "db_step s Db_close = s\<lparr>pending := []\<rparr>"
| "db_step s ev = s"

definition db_run :: "db \<Rightarrow> sql_event list \<Rightarrow> db" where
  "db_run s evs = foldl db_step s evs"

definition db_crash :: "db \<Rightarrow> db" where
  "db_crash s = s\<lparr>pending := []\<rparr>"

definition empty_db :: db where
  "empty_db = \<lparr>committed = [], pending = []\<rparr>"

fun inserts :: "sql_event list \<Rightarrow> row list" where
  "inserts [] = []"
| "inserts (Db_insert r # evs) = r # inserts evs"
| "inserts (ev # evs) = inserts evs"

text \<open>The events between connecting and committing: polls, printed lines and inserts.\<close>

fun quiet :: "sql_event \<Rightarrow> bool" where
  "quiet (Poll t) = True"
| "quiet (Log l) = True"
| "quiet (Db_insert r) = True"
| "quiet ev = False"

section \<open>Properties of the batch split\<close>

lemma ceil_div_step:
  fixes d s :: nat
  assumes "0 < s" "0 < d"
  shows "(d + s - 1) div s = Suc ((d - s + s - 1) div s)"
proof (cases "s \<le> d")
  case True
  then have e: "d + s - 1 = (d - 1) + s" "d - s + s - 1 = d - 1" using assms by arith+
  have "((d - 1) + s) div s = Suc ((d - 1) div s)" using assms(1) by simp
  then show ?thesis by (simp only: e)
next
  case False
  then have "s \<le> d + s - 1" "d + s - 1 < 2 * s" "d - s + s - 1 < s" using assms by arith+
  then have "(d + s - 1) div s = 1" "(d - s + s - 1) div s = 0"
    by (auto simp: div_nat_eqI)
  then show ?thesis by simp
qed

lemma length_py_range: "0 < b \<Longrightarrow> length (py_range i n b) = (n - i + b - 1) div b"
proof (induction i n b rule: py_range.induct)
  case (1 i n step)
  show ?case
  proof (cases "n \<le> i")
    case True
    with 1(2) show ?thesis by (simp add: py_range.simps[of i n step])
  next
    case False
    then have "length (py_range i n step) = Suc ((n - (i + step) + step - 1) div step)"
      using 1 by (simp add: py_range.simps[of i n step])
    also have "n - (i + step) = (n - i) - step" by simp
    also have "Suc (((n - i) - step + step - 1) div step) = (n - i + step - 1) div step"
      using ceil_div_step[of step "n - i"] 1(2) False by simp
    finally show ?thesis .
  qed
qed

lemma nth_py_range: "0 < b \<Longrightarrow> k < length (py_range i n b) \<Longrightarrow> py_range i n b ! k = i + k * b"
proof (induction i n b arbitrary: k rule: py_range.induct)
  case (1 i n step)
  then show ?case
    by (cases k) (auto simp: py_range.simps[of i n step] split: if_splits)
qed

lemma concat_py_range:
  "0 < b \<Longrightarrow> concat (map (\<lambda>j. py_slice xs j (j + b)) (py_range i (length xs) b)) = drop i xs"
proof (induction i "length xs" b rule: py_range.induct)
  case (1 i step)
  show ?case
  proof (cases "length xs \<le> i")
    case True
    then show ?thesis by (simp add: py_range.simps[of i "length xs" step])
  next
    case False
    have "drop i (take (i + step) xs) @ drop (i + step) xs = drop i xs"
    proof -
      have "drop i (take (i + step) xs) = take step (drop i xs)"
        by (simp add: drop_take)
      moreover have "drop (i + step) xs = drop step (drop i xs)"
        by (simp add: add.commute)
      ultimately show ?thesis by (simp only: append_take_drop_id)
    qed
    with 1 False show ?thesis
      by (simp add: py_range.simps[of i "length xs" step] py_slice_def)
  qed
qed


lemma ceiling_nat_div:
  fixes n b :: nat
  assumes "0 < b"
  shows "\<lceil>real n / real b\<rceil> = int ((n + b - 1) div b)"
proof -
  have "\<lceil>real n / real b\<rceil> = \<lceil>(of_int (int n) :: real) / of_int (int b)\<rceil>" by simp
  also have "\<dots> = - (- int n div int b)" by (rule ceiling_divide_eq_div)
  also have "\<dots> = int ((n + b - 1) div b)"
  proof -
    have "int ((n + b - 1) div b) = (int n + int b - 1) div int b"
      using assms by (simp add: zdiv_int of_nat_diff)
    moreover have "- (- int n div int b) = (int n + int b - 1) div int b"
    proof -
      define q r where "q = int n div int b" and "r = int n mod int b"
      have nqr: "int n = q * int b + r" and r: "0 \<le> r" "r < int b"
        using assms by (simp_all add: q_def r_def)
      have bnz: "int b \<noteq> 0" using assms by simp
      show ?thesis
      proof (cases "r = 0")
        case True
        have "int n + int b - 1 = int b - 1 + q * int b"
          by (simp add: nqr True)
        then have "(int n + int b - 1) div int b = (int b - 1 + q * int b) div int b"
          by (rule arg_cong)
        also have "\<dots> = (int b - 1) div int b + q"
          using bnz by simp
        also have "(int b - 1) div int b = 0" using assms by (simp add: div_pos_pos_trivial)
        finally have "(int n + int b - 1) div int b = q" by simp
        moreover have "- int n div int b = - q"
          using True bnz by (simp add: zdiv_zminus1_eq_if q_def r_def)
        ultimately show ?thesis by simp
      next
        case False
        have "int n + int b - 1 = r - 1 + (q + 1) * int b"
          by (simp add: nqr algebra_simps)
        then have "(int n + int b - 1) div int b = (r - 1 + (q + 1) * int b) div int b"
          by (rule arg_cong)
        also have "\<dots> = (r - 1) div int b + (q + 1)"
          using bnz by simp
        also have "(r - 1) div int b = 0" using r False by (simp add: div_pos_pos_trivial)
        finally have "(int n + int b - 1) div int b = q + 1" by simp
        moreover have "- int n div int b = - q - 1"
          using False bnz by (simp add: zdiv_zminus1_eq_if q_def r_def)
        ultimately show ?thesis by simp
      qed
    qed
    ultimately show ?thesis by simp
  qed
  finally show ?thesis .
qed

text \<open>
  Claim C1. For every list of \<open>N\<close> targets and every batch size \<open>B > 0\<close> the split
  succeeds and gives exactly \<open>\<lceil>N / B\<rceil>\<close> batches; batch number \<open>k\<close> (from 0) is the
  slice \<^verbatim>\<open>xs[k*B : k*B + B]\<close> of the original list, so it is contiguous and in the
  original order; and the batches concatenated in order are the original list.
\<close>

theorem split_batches_partition:
  assumes "0 < B"
  shows "\<exists>bs. split_batches B xs = Inr bs
           \<and> int (length bs) = \<lceil>real (length xs) / real_of_int B\<rceil>
           \<and> (\<forall>k<length bs. bs ! k = py_slice xs (k * nat B) (k * nat B + nat B))
           \<and> concat bs = xs"
proof -
  let ?b = "nat B"
  let ?bs = "map (\<lambda>i. py_slice xs i (i + ?b)) (py_range 0 (length xs) ?b)"
  have b: "0 < ?b" using assms by simp
  have 1: "split_batches B xs = Inr ?bs" using assms by (simp add: split_batches_def)
  have rb: "real ?b = real_of_int B" using assms by simp
  have "length ?bs = (length xs + ?b - 1) div ?b"
    using length_py_range[OF b, of 0 "length xs"] by simp
  then have "int (length ?bs) = int ((length xs + ?b - 1) div ?b)" by (rule arg_cong)
  also have "\<dots> = \<lceil>real (length xs) / real ?b\<rceil>"
    by (rule ceiling_nat_div[OF b, symmetric])
  finally have 2: "int (length ?bs) = \<lceil>real (length xs) / real_of_int B\<rceil>"
    by (simp only: rb)
  have 3: "\<forall>k<length ?bs. ?bs ! k = py_slice xs (k * ?b) (k * ?b + ?b)"
    using nth_py_range[OF b, of _ 0 "length xs"] by simp
  have 4: "concat ?bs = xs" using concat_py_range[OF b, of xs 0] by simp
  from 1 2 3 4 show ?thesis by blast
qed

theorem split_batches_partition_witness:
  "split_batches 2 [''SG1'', ''SG2'', ''SG3''] = Inr [[''SG1'', ''SG2''], [''SG3'']]"
proof -
  let ?xs = "[''SG1'', ''SG2'', ''SG3'']"
  have h: "(0::int) < 2" by simp
  from split_batches_partition [OF h, of ?xs] obtain bs where
    bs: "split_batches 2 ?xs = Inr bs"
    and len: "int (length bs) = \<lceil>real (length ?xs) / real_of_int 2\<rceil>"
    and sl: "\<forall>k<length bs. bs ! k = py_slice ?xs (k * nat 2) (k * nat 2 + nat 2)"
    by blast
  have "\<lceil>real (length ?xs) / real_of_int 2\<rceil> = 2" by simp
  with len have l2: "length bs = 2" by simp
  then have "bs = [bs ! 0, bs ! 1]"
    by (cases bs; cases "tl bs") auto
  moreover have "bs ! 0 = [''SG1'', ''SG2'']" "bs ! 1 = [''SG3'']"
    using sl l2 by (simp_all add: py_slice_def)
  ultimately have "bs = [[''SG1'', ''SG2''], [''SG3'']]" by simp
  with bs show ?thesis by simp
qed

section \<open>Properties of the paginated GET\<close>

lemma map_of_in_keys: "map_of d k = Some v \<Longrightarrow> k \<in> fst ` set d"
  by (metis map_of_eq_None_iff option.distinct(1))

lemma map_of_not_in_keys: "map_of d k = None \<Longrightarrow> k \<notin> fst ` set d"
  by (simp add: map_of_eq_None_iff)

lemma result_pageD:
  assumes "result_page response items key"
  obtains d r where "raise_for_status response = None" "json_body response = Inr (JDict d)"
    "map_of d ''resultList'' = Some (JDict r)" "map_of r ''result'' = Some (JList items)"
    "map_of r ''nextPageKey'' = key"
  using assms unfolding result_page_def
  by (auto split: sum.splits json.splits option.splits)

lemma paginate_next:
  assumes "session_get n params = Inr response" "result_page response items (Some k)" "truthy k"
  shows "paginate session_get n params results =
         paginate session_get (Suc n) (params(''pageKey'' \<mapsto> k)) (results @ items)"
proof -
  from assms(2) obtain d r where h: "raise_for_status response = None"
    "json_body response = Inr (JDict d)" "map_of d ''resultList'' = Some (JDict r)"
    "map_of r ''result'' = Some (JList items)" "map_of r ''nextPageKey'' = Some k"
    by (rule result_pageD)
  have k1: "''resultList'' \<in> fst ` set d" and k2: "''nextPageKey'' \<in> fst ` set r"
    using h(3,5) by (auto dest: map_of_in_keys)
  show ?thesis
    by (subst paginate.simps) (simp add: assms(1,3) h is_dict_def k1 k2)
qed

lemma paginate_last:
  assumes "session_get n params = Inr response" "result_page response items key"
    "case key of None \<Rightarrow> True | Some k \<Rightarrow> \<not> truthy k"
  shows "paginate session_get n params results = Some (Inr (JList (results @ items)))"
proof -
  from assms(2) obtain d r where h: "raise_for_status response = None"
    "json_body response = Inr (JDict d)" "map_of d ''resultList'' = Some (JDict r)"
    "map_of r ''result'' = Some (JList items)" "map_of r ''nextPageKey'' = key"
    by (rule result_pageD)
  have k1: "''resultList'' \<in> fst ` set d"
    using h(3) by (auto dest: map_of_in_keys)
  show ?thesis
  proof (cases key)
    case None
    then have "''nextPageKey'' \<notin> fst ` set r" using h(5) by (simp add: map_of_not_in_keys)
    then show ?thesis
      by (subst paginate.simps) (simp add: assms(1) h is_dict_def k1)
  next
    case (Some k)
    then have "''nextPageKey'' \<in> fst ` set r" "\<not> truthy k" "map_of r ''nextPageKey'' = Some k"
      using h(5) assms(3) by (auto dest: map_of_in_keys)
    then show ?thesis
      by (subst paginate.simps) (simp add: assms(1) h(1-4) is_dict_def k1)
  qed
qed

lemma paginate_plain:
  assumes "session_get n params = Inr response" "plain_body response data"
  shows "paginate session_get n params results = Some (Inr data)"
proof -
  have h: "raise_for_status response = None" "json_body response = Inr data"
    using assms(2) by (simp_all add: plain_body_def)
  have c: "(is_dict data \<and> py_contains ''resultList'' data = Inr True) = False"
    using assms(2) by (cases data) (auto simp: plain_body_def is_dict_def dest: map_of_not_in_keys)
  show ?thesis
    by (subst paginate.simps) (simp only: assms(1) h c sum.case option.case if_False)
qed

lemma sent_params_0: "sent_params p key 0 = p"
  by (simp add: sent_params_def)

lemma sent_params_Suc: "sent_params p key (Suc i) = (sent_params p key i)(''pageKey'' \<mapsto> key i)"
  by (simp add: sent_params_def)

lemma paginate_sent:
  assumes "\<forall>i<n. \<exists>response. session_get i (sent_params p key i) = Inr response
              \<and> result_page response (items i) (Some (key i)) \<and> truthy (key i)"
  shows "paginate session_get 0 p [] =
         paginate session_get n (sent_params p key n) (concat (map items [0..<n]))"
  using assms
proof (induction n)
  case 0
  show ?case by (simp add: sent_params_0)
next
  case (Suc n)
  then have ih: "paginate session_get 0 p [] =
      paginate session_get n (sent_params p key n) (concat (map items [0..<n]))"
    by simp
  from Suc.prems obtain response where
    s: "session_get n (sent_params p key n) = Inr response"
       "result_page response (items n) (Some (key n))" "truthy (key n)"
    by blast
  have "paginate session_get n (sent_params p key n) (concat (map items [0..<n])) =
      paginate session_get (Suc n) ((sent_params p key n)(''pageKey'' \<mapsto> key n))
        (concat (map items [0..<n]) @ items n)"
    using s by (rule paginate_next)
  with ih show ?case by (simp only: sent_params_Suc upt_Suc_append le0 map_append list.map
        concat_append concat.simps append_Nil2)
qed

text \<open>
  Claim C2 (as amended). Let the replies to the first \<open>n\<close> requests, each sent with the
  parameters the client has at that point (the page size, and from the second request
  on the key of the page before), be pages: mappings whose \<^verbatim>\<open>'resultList'\<close> holds a
  list under \<^verbatim>\<open>'result'\<close> and a next-page key that is not empty (a value the loop's
  test \<^verbatim>\<open>'nextPageKey' in ... and ...['nextPageKey']\<close> accepts). If reply \<open>n\<close> is a page
  whose key is absent or empty, the call returns the items of pages \<open>0, ..., n\<close>
  concatenated in page order, nothing added and nothing left out. If reply \<open>n\<close> is a
  body that is not a mapping with a \<^verbatim>\<open>'resultList'\<close>, the call returns that body
  unchanged (for \<open>n = 0\<close>: a response that is not paginated is returned as it is). In
  both cases the call returns.
\<close>

theorem get_paginated_accumulates:
  assumes "\<forall>i<n. \<exists>response. session_get i (sent_params (first_params params limit) key i) = Inr response
              \<and> result_page response (items i) (Some (key i)) \<and> truthy (key i)"
  shows "((\<exists>response last_key.
              session_get n (sent_params (first_params params limit) key n) = Inr response
              \<and> result_page response (items n) last_key
              \<and> (case last_key of None \<Rightarrow> True | Some k \<Rightarrow> \<not> truthy k))
          \<longrightarrow> get_paginated session_get params limit
                = Some (Inr (JList (concat (map items [0..<Suc n])))))
       \<and> ((\<exists>response. session_get n (sent_params (first_params params limit) key n) = Inr response
              \<and> plain_body response data)
          \<longrightarrow> get_paginated session_get params limit = Some (Inr data))"
proof -
  let ?pn = "sent_params (first_params params limit) key n"
  have "paginate session_get 0 (first_params params limit) [] =
          paginate session_get n ?pn (concat (map items [0..<n]))"
    using assms by (rule paginate_sent)
  then have run: "get_paginated session_get params limit =
          paginate session_get n ?pn (concat (map items [0..<n]))"
    by (simp add: get_paginated_def first_params_def)
  show ?thesis
  proof (intro conjI impI)
    assume "\<exists>response last_key. session_get n ?pn = Inr response
              \<and> result_page response (items n) last_key
              \<and> (case last_key of None \<Rightarrow> True | Some k \<Rightarrow> \<not> truthy k)"
    then obtain response last_key where "session_get n ?pn = Inr response"
      "result_page response (items n) last_key"
      "case last_key of None \<Rightarrow> True | Some k \<Rightarrow> \<not> truthy k"
      by blast
    then have "paginate session_get n ?pn (concat (map items [0..<n])) =
        Some (Inr (JList (concat (map items [0..<n]) @ items n)))"
      by (rule paginate_last)
    with run
    show "get_paginated session_get params limit = Some (Inr (JList (concat (map items [0..<Suc n]))))"
      by simp
  next
    assume "\<exists>response. session_get n ?pn = Inr response \<and> plain_body response data"
    then obtain response where "session_get n ?pn = Inr response" "plain_body response data"
      by blast
    then have "paginate session_get n ?pn (concat (map items [0..<n])) = Some (Inr data)"
      by (rule paginate_plain)
    with run show "get_paginated session_get params limit = Some (Inr data)" by simp
  qed
qed

theorem get_paginated_accumulates_witness:
  "get_paginated cursor_server None 1000 = Some (Inr (JList [JInt 1, JInt 2, JInt 3]))
   \<and> get_paginated (scripted [page [JInt 1] (Some (JStr ''k1'')), JList [JStr ''a'']]) None 1000
     = Some (Inr (JList [JStr ''a'']))"
proof -
  let ?i1 = "\<lambda>i::nat. if i = 0 then [JInt 1, JInt 2] else [JInt 3]"
  let ?k = "\<lambda>i::nat. JStr ''k1''"
  let ?s2 = "scripted [page [JInt 1] (Some (JStr ''k1'')), JList [JStr ''a'']]"
  let ?i2 = "\<lambda>i::nat. [JInt 1]"
  have a1: "\<forall>i<1. \<exists>response. cursor_server i (sent_params (first_params None 1000) ?k i) = Inr response
              \<and> result_page response (?i1 i) (Some (?k i)) \<and> truthy (?k i)"
    by (simp add: cursor_server_def first_params_def page_def ok_response_def result_page_def
          raise_for_status_def sent_params_0 sent_params_Suc)
  have b1: "\<exists>response last_key. cursor_server 1 (sent_params (first_params None 1000) ?k 1) = Inr response
              \<and> result_page response (?i1 1) last_key
              \<and> (case last_key of None \<Rightarrow> True | Some k \<Rightarrow> \<not> truthy k)"
    by (simp add: cursor_server_def first_params_def page_def ok_response_def result_page_def
          raise_for_status_def sent_params_0 sent_params_Suc)
  have a2: "\<forall>i<1. \<exists>response. ?s2 i (sent_params (first_params None 1000) ?k i) = Inr response
              \<and> result_page response (?i2 i) (Some (?k i)) \<and> truthy (?k i)"
    by (simp add: scripted_def page_def ok_response_def result_page_def raise_for_status_def)
  have b2: "\<exists>response. ?s2 1 (sent_params (first_params None 1000) ?k 1) = Inr response
              \<and> plain_body response (JList [JStr ''a''])"
    by (simp add: scripted_def ok_response_def plain_body_def raise_for_status_def)
  from get_paginated_accumulates [where session_get = cursor_server and n = 1 and params = None
         and limit = 1000 and key = ?k and items = ?i1 and data = JNull, OF a1, THEN conjunct1] b1
  have "get_paginated cursor_server None 1000 = Some (Inr (JList (concat (map ?i1 [0..<Suc 1]))))"
    by (rule mp)
  moreover from get_paginated_accumulates [where session_get = ?s2 and n = 1 and params = None
         and limit = 1000 and key = ?k and items = ?i2 and data = "JList [JStr ''a'']",
         OF a2, THEN conjunct2] b2
  have "get_paginated ?s2 None 1000 = Some (Inr (JList [JStr ''a'']))"
    by (rule mp)
  ultimately show ?thesis by (simp add: upt_rec)
qed

text \<open>
  The claim as first stated asks only for a next-page key on every page but the last.
  On a first page whose key is the empty string the loop stops, and the second page is
  never requested.
\<close>

theorem get_paginated_empty_key_counterexample:
  "get_paginated (scripted [page [JInt 1] (Some (JStr '''')), page [JInt 2] None]) None 1000
     = Some (Inr (JList [JInt 1]))
   \<and> get_paginated (scripted [page [JInt 1] (Some (JStr '''')), page [JInt 2] None]) None 1000
     \<noteq> Some (Inr (JList ([JInt 1] @ [JInt 2])))"
  by (simp add: get_paginated_def first_params_def paginate.simps scripted_def page_def
        ok_response_def raise_for_status_def is_dict_def)

section \<open>Properties of the per-target fetch\<close>

lemma less_ten: "(d::nat) < 10 \<longleftrightarrow> d \<in> {0, 1, 2, 3, 4, 5, 6, 7, 8, 9}"
  by auto

lemma digit_value: "d < 10 \<Longrightarrow> of_char (digit_char d) - 48 = d"
  unfolding less_ten by (auto simp: digit_char_def)

lemma digit_not_minus: "d < 10 \<Longrightarrow> digit_char d \<noteq> CHR ''-''"
  unfolding less_ten by (auto simp: digit_char_def)

lemma str_nat_value: "foldl (\<lambda>a c. 10 * a + (of_char c - 48)) 0 (str_nat n) = n"
proof (induction n rule: str_nat.induct)
  case (1 n)
  show ?case
  proof (cases "n < 10")
    case True
    then show ?thesis by (simp add: str_nat.simps[of n] digit_value)
  next
    case False
    then have "foldl (\<lambda>a c. 10 * a + (of_char c - 48)) 0 (str_nat (n div 10)) = n div 10"
      using 1 by simp
    moreover have "n mod 10 < 10" by simp
    ultimately show ?thesis using False by (simp add: str_nat.simps[of n] digit_value)
  qed
qed

lemma str_nat_inject: "str_nat a = str_nat b \<longleftrightarrow> a = b"
  by (metis str_nat_value)

lemma str_nat_no_minus: "CHR ''-'' \<notin> set (str_nat n)"
proof (induction n rule: str_nat.induct)
  case (1 n)
  show ?case
  proof (cases "n < 10")
    case True
    then show ?thesis using digit_not_minus[of n] by (simp add: str_nat.simps[of n])
  next
    case False
    moreover have "n mod 10 < 10" by simp
    ultimately show ?thesis
      using 1 digit_not_minus[of "n mod 10"] by (simp add: str_nat.simps[of n])
  qed
qed

lemma str_int_inject: "str_int a = str_int b \<longleftrightarrow> a = b"
proof
  assume eq: "str_int a = str_int b"
  have nm: "str_nat n \<noteq> CHR ''-'' # s" for n s
    using str_nat_no_minus[of n] by (metis list.set_intros(1))
  show "a = b"
  proof (cases "a < 0"; cases "b < 0")
    assume "a < 0" "b < 0"
    with eq have "nat (- a) = nat (- b)" by (simp add: str_int_def str_nat_inject)
    with \<open>a < 0\<close> \<open>b < 0\<close> show ?thesis by simp
  next
    assume "a < 0" "\<not> b < 0"
    with eq nm show ?thesis by (simp add: str_int_def) metis
  next
    assume "\<not> a < 0" "b < 0"
    with eq nm show ?thesis by (simp add: str_int_def)
  next
    assume "\<not> a < 0" "\<not> b < 0"
    with eq have "nat a = nat b" by (simp add: str_int_def str_nat_inject)
    with \<open>\<not> a < 0\<close> \<open>\<not> b < 0\<close> show ?thesis by simp
  qed
qed simp

text \<open>
  Claim C4 (as amended). Both \<^verbatim>\<open>get_rdf_status\<close> functions compare the status code
  with 200. When the request gives a response with status code 200 whose body parses,
  the fetch returns the parsed body (in \<^verbatim>\<open>rdf.py\<close> under the target's name). For every
  other status code, the other codes from 201 to 299 included, it returns an error
  value that holds the decimal text of that code, from which the code can be read
  back (no other code has the same text). The functions return a value on every
  path: they cannot raise.
\<close>

theorem get_rdf_status_by_status:
  assumes "session_get (rdf_url sg_name) = Inr response" and "session_get' sg_name' = Inr response"
  shows "(status_code response = 200 \<and> json_body response = Inr body \<longrightarrow>
            get_rdf_status session_get sg_name = JDict [(sg_name, body)]
          \<and> get_rdf_status_sql session_get' sg_name' = body)
       \<and> (status_code response \<noteq> 200 \<longrightarrow>
            get_rdf_status session_get sg_name
              = JDict [(sg_name, JStr (''Error: '' @ str_int (status_code response)))]
          \<and> get_rdf_status_sql session_get' sg_name'
              = JDict [(''error'', JStr (''HTTP '' @ str_int (status_code response)))])
       \<and> (\<forall>code. str_int code = str_int (status_code response) \<longrightarrow> code = status_code response)"
  using assms by (simp add: get_rdf_status_def get_rdf_status_sql_def str_int_inject)

lemma str_int_404: "str_int 404 = ''404''"
  by (simp add: str_int_def str_nat.simps digit_char_def)

lemma str_int_201: "str_int 201 = ''201''"
  by (simp add: str_int_def str_nat.simps digit_char_def)

theorem get_rdf_status_by_status_witness:
  "get_rdf_status (always (Inr (with_status 200 (JDict [(''rdfGroupInfo'', JList [])])))) ''SG1''
     = JDict [(''SG1'', JDict [(''rdfGroupInfo'', JList [])])]
   \<and> get_rdf_status_sql (always (Inr (with_status 200 (JDict [(''rdfGroupInfo'', JList [])])))) (JStr ''SG1'')
     = JDict [(''rdfGroupInfo'', JList [])]
   \<and> get_rdf_status (always (Inr (with_status 404 JNull))) ''SG1''
     = JDict [(''SG1'', JStr ''Error: 404'')]
   \<and> get_rdf_status_sql (always (Inr (with_status 404 JNull))) (JStr ''SG1'')
     = JDict [(''error'', JStr ''HTTP 404'')]"
proof -
  let ?ok = "with_status 200 (JDict [(''rdfGroupInfo'', JList [])])"
  let ?nf = "with_status 404 JNull"
  have a: "always (Inr ?ok) (rdf_url ''SG1'') = Inr ?ok" "always (Inr ?ok) (JStr ''SG1'') = Inr ?ok"
    and b: "always (Inr ?nf) (rdf_url ''SG1'') = Inr ?nf" "always (Inr ?nf) (JStr ''SG1'') = Inr ?nf"
    by (simp_all add: always_def)
  from get_rdf_status_by_status [where session_get = "always (Inr ?ok)" and sg_name = "''SG1''"
         and session_get' = "always (Inr ?ok)" and sg_name' = "JStr ''SG1''" and response = ?ok
         and body = "JDict [(''rdfGroupInfo'', JList [])]", OF a]
       get_rdf_status_by_status [where session_get = "always (Inr ?nf)" and sg_name = "''SG1''"
         and session_get' = "always (Inr ?nf)" and sg_name' = "JStr ''SG1''" and response = ?nf
         and body = JNull, OF b]
  show ?thesis by (simp add: with_status_def str_int_404)
qed

text \<open>
  The claim as first stated has the parsed body returned for every status code from
  200 to 299. A response with status code 201 and a JSON body is reported as an error.
\<close>

theorem get_rdf_status_created_counterexample:
  "get_rdf_status (always (Inr (with_status 201 (JDict [(''rdfGroupInfo'', JList [])])))) ''SG1''
     = JDict [(''SG1'', JStr ''Error: 201'')]
   \<and> get_rdf_status (always (Inr (with_status 201 (JDict [(''rdfGroupInfo'', JList [])])))) ''SG1''
     \<noteq> JDict [(''SG1'', JDict [(''rdfGroupInfo'', JList [])])]
   \<and> get_rdf_status_sql (always (Inr (with_status 201 (JDict [(''rdfGroupInfo'', JList [])])))) (JStr ''SG1'')
     = JDict [(''error'', JStr ''HTTP 201'')]
   \<and> get_rdf_status_sql (always (Inr (with_status 201 (JDict [(''rdfGroupInfo'', JList [])])))) (JStr ''SG1'')
     \<noteq> JDict [(''rdfGroupInfo'', JList [])]"
  by (simp add: get_rdf_status_def get_rdf_status_sql_def always_def with_status_def str_int_201)

section \<open>Properties of a batch\<close>

lemma for_each_None_iff:
  "snd (for_each body xs) = None \<longleftrightarrow> (\<forall>x\<in>set xs. snd (body x) = None)"
proof (induction xs)
  case Nil
  show ?case by simp
next
  case (Cons x xs)
  obtain ev r where b: "body x = (ev, r)" by (cases "body x")
  obtain ev' r' where f: "for_each body xs = (ev', r')" by (cases "for_each body xs")
  show ?case using Cons b f by (cases r) auto
qed

lemma for_each_single: "for_each body [x] = body x"
proof -
  obtain ev r where b: "body x = (ev, r)" by (cases "body x")
  show ?thesis by (cases r) (simp_all add: b)
qed

lemma get_rdf_status_single_key: "\<exists>v. get_rdf_status session_get sg = JDict [(sg, v)]"
  by (simp add: get_rdf_status_def split: sum.splits)

lemma csv_result_single: "csv_result (JDict [(sg, v)]) = csv_item (sg, v)"
  by (simp add: csv_result_def for_each_single del: for_each.simps)

lemma csv_item_not_dict: "\<not> is_dict v \<Longrightarrow> csv_item (sg, v) = ([], None)"
  by (cases v) (simp_all add: csv_item_def is_dict_def)

lemma length_batch_results: "length (batch_results session_get batch) = length batch"
  by (simp add: batch_results_def)

lemma process_batch_returns_iff:
  "snd (process_batch env batch num) = Inr n \<longleftrightarrow>
     n = length batch
     \<and> can_open env (output_file num (strftime env num))
     \<and> can_open env (csv_file num (strftime env num))
     \<and> (\<forall>sg\<in>set batch. snd (csv_result (get_rdf_status (http_get env num) sg)) = None)"
proof -
  let ?rs = "batch_results (http_get env num) batch"
  obtain rows r where f: "for_each csv_result ?rs = (rows, r)" by (cases "for_each csv_result ?rs")
  have "r = None \<longleftrightarrow> (\<forall>sg\<in>set batch. snd (csv_result (get_rdf_status (http_get env num) sg)) = None)"
    using for_each_None_iff[of csv_result ?rs] f by (simp add: batch_results_def)
  then show ?thesis
    by (cases r) (auto simp: process_batch_def Let_def f length_batch_results)
qed

lemma for_each_events:
  "e \<in> set (fst (for_each body xs)) \<Longrightarrow> \<exists>x\<in>set xs. e \<in> set (fst (body x))"
proof (induction xs)
  case Nil
  then show ?case by simp
next
  case (Cons x xs)
  obtain ev r where b: "body x = (ev, r)" by (cases "body x")
  obtain ev' r' where f: "for_each body xs = (ev', r')" by (cases "for_each body xs")
  show ?case using Cons b f by (cases r) auto
qed

lemma csv_group_events: "e \<in> set (fst (csv_group sg g)) \<Longrightarrow> \<exists>r. e = Csv_row r"
  by (cases g) (auto simp: csv_group_def)

lemma csv_item_events: "e \<in> set (fst (csv_item item)) \<Longrightarrow> \<exists>r. e = Csv_row r"
  by (cases "snd item")
     (auto simp: csv_item_def split: sum.splits dest!: for_each_events csv_group_events)

lemma csv_result_events: "e \<in> set (fst (csv_result result)) \<Longrightarrow> \<exists>r. e = Csv_row r"
  by (cases result) (auto simp: csv_result_def dest!: for_each_events csv_item_events)

lemma csv_rows_events: "e \<in> set (fst (for_each csv_result rs)) \<Longrightarrow> \<exists>r. e = Csv_row r"
  by (auto dest!: for_each_events csv_result_events)

lemma json_dump_in_process_batch:
  "Json_dump v \<in> set (fst (process_batch env batch num)) \<longleftrightarrow>
     can_open env (output_file num (strftime env num))
     \<and> v = JList (batch_results (http_get env num) batch)"
proof -
  let ?rs = "batch_results (http_get env num) batch"
  obtain rows r where f: "for_each csv_result ?rs = (rows, r)" by (cases "for_each csv_result ?rs")
  have rows: "Json_dump v \<notin> set rows"
    using csv_rows_events[of "Json_dump v" ?rs] f by auto
  show ?thesis
    using rows by (cases r) (auto simp: process_batch_def Let_def f)
qed

lemma store_result_counted:
  assumes "snd (store_result env pass t sg result)"
  shows "\<exists>d v. result = JDict d \<and> map_of d ''rdfGroupInfo'' = Some v"
proof (cases result)
  case (JDict d)
  show ?thesis
  proof (cases "map_of d ''rdfGroupInfo''")
    case None
    then have "''rdfGroupInfo'' \<notin> fst ` set d" by (simp add: map_of_eq_None_iff)
    with assms JDict show ?thesis
      by (simp add: store_result_def split: option.splits)
  next
    case (Some v)
    with JDict show ?thesis by simp
  qed
qed (use assms in \<open>auto simp: store_result_def split: if_splits\<close>)

lemma store_result_error_value:
  "\<not> snd (store_result env pass t sg (JDict [(''error'', JStr msg)]))"
  by (simp add: store_result_def)

lemma process_storage_groups_count:
  assumes "snd (process_storage_groups env pass storage_groups) = Inr p"
  shows "\<exists>sgs. py_iter storage_groups = Inr sgs
           \<and> p = length (filter (\<lambda>sg. snd (store_result env pass (datetime_now env pass) sg
                                            (get_rdf_status_sql (fetch env pass) sg))) sgs)"
  using assms
  by (auto simp: process_storage_groups_def Let_def filter_map comp_def
           split: option.splits sum.splits)

lemma rdf_url_inject: "rdf_url a = rdf_url b \<longleftrightarrow> a = b"
  by (simp add: rdf_url_def)

lemma sample_results:
  "batch_results sample_get [''SG1'', ''SG2'', ''SG3'']
     = [JDict [(''SG1'', sample_body)], JDict [(''SG2'', JStr ''Exception: timed out'')],
        JDict [(''SG3'', sample_body)]]"
  by (simp add: batch_results_def get_rdf_status_def sample_get_def rdf_url_inject with_status_def
        str_exn_def)

lemma sample_pass_returns:
  "snd (process_storage_groups sample_sql_env pass (JList [JStr ''SG1'', JStr ''SG2''])) = Inr 1"
  by (simp add: process_storage_groups_def sample_sql_env_def always_def sample_fetch_def
        get_rdf_status_sql_def with_status_def store_result_def sample_body_def
        create_rdf_status_record_def parse_last_sync_def dict_get_def Let_def)

lemma csv_group_None_iff: "snd (csv_group sg g) = None \<longleftrightarrow> is_dict g"
  by (cases g) (simp_all add: csv_group_def is_dict_def)

lemma csv_item_None_iff: "snd (csv_item (sg, v)) = None \<longleftrightarrow> \<not> malformed v"
proof (cases v)
  case (JDict d)
  show ?thesis
  proof (cases "py_iter (dict_get d ''rdfGroupInfo'' (JList []))")
    case (Inl e)
    then show ?thesis using JDict by (simp add: csv_item_def malformed_def)
  next
    case (Inr groups)
    then show ?thesis
      using JDict for_each_None_iff[of "csv_group sg" groups]
      by (simp add: csv_item_def malformed_def csv_group_None_iff list_ex_iff)
  qed
qed (simp_all add: csv_item_def malformed_def)

lemma process_batch_raises:
  assumes "\<not> can_open env (output_file num (strftime env num))
           \<or> \<not> can_open env (csv_file num (strftime env num))
           \<or> (\<exists>sg\<in>set batch. \<exists>v. get_rdf_status (http_get env num) sg = JDict [(sg, v)] \<and> malformed v)"
  shows "\<exists>e. snd (process_batch env batch num) = Inl e"
proof -
  have bad: "\<not> (\<forall>sg\<in>set batch. snd (csv_result (get_rdf_status (http_get env num) sg)) = None)"
    if "sg \<in> set batch" "get_rdf_status (http_get env num) sg = JDict [(sg, v)]" "malformed v"
    for sg v
  proof -
    have "snd (csv_result (get_rdf_status (http_get env num) sg)) \<noteq> None"
      using that(2,3) by (simp add: csv_result_single csv_item_None_iff)
    with that(1) show ?thesis by (auto simp: Ball_def)
  qed
  have "snd (process_batch env batch num) \<noteq> Inr (length batch)"
    using assms bad unfolding process_batch_returns_iff by blast
  moreover have "snd (process_batch env batch num) = Inr n \<Longrightarrow> n = length batch" for n
    by (simp add: process_batch_returns_iff)
  ultimately show ?thesis
    by (cases "snd (process_batch env batch num)") auto
qed

lemma store_result_counted_iff:
  "snd (store_result env pass t sg result) \<longleftrightarrow>
     (\<exists>d info groups. result = JDict d \<and> map_of d ''rdfGroupInfo'' = Some info
        \<and> py_iter info = Inr groups
        \<and> (\<forall>g\<in>set groups. snd (create_rdf_status_record env pass t sg g) = None))"
proof (cases result)
  case (JDict d)
  show ?thesis
  proof (cases "map_of d ''rdfGroupInfo''")
    case None
    then have "''rdfGroupInfo'' \<notin> fst ` set d" by (simp add: map_of_eq_None_iff)
    with JDict None show ?thesis
      by (simp add: store_result_def split: option.splits)
  next
    case (Some info)
    then have k: "''rdfGroupInfo'' \<in> fst ` set d" by (rule map_of_in_keys)
    show ?thesis
    proof (cases "py_iter info")
      case (Inl e)
      then show ?thesis using JDict Some k by (simp add: store_result_def)
    next
      case (Inr groups)
      obtain ev r where f: "for_each (create_rdf_status_record env pass t sg) groups = (ev, r)"
        by (cases "for_each (create_rdf_status_record env pass t sg) groups")
      have "r = None \<longleftrightarrow> (\<forall>g\<in>set groups. snd (create_rdf_status_record env pass t sg g) = None)"
        using for_each_None_iff[of "create_rdf_status_record env pass t sg" groups] f by simp
      then show ?thesis
        using JDict Some k Inr f by (cases r) (simp_all add: store_result_def)
    qed
  qed
qed (auto simp: store_result_def split: if_splits)

lemma sample_batch_returns:
  "snd (process_batch sample_env [''SG1'', ''SG2'', ''SG3''] 1) = Inr 3"
  by (simp add: process_batch_returns_iff sample_env_def always_def get_rdf_status_def
        sample_get_def rdf_url_inject with_status_def csv_result_def csv_item_def csv_group_def
        dict_get_def sample_body_def)

lemma malformed_status:
  "get_rdf_status (http_get malformed_env 1) ''SG1''
     = JDict [(''SG1'', JDict [(''rdfGroupInfo'', JList [JInt 1])])]"
  by (simp add: malformed_env_def always_def get_rdf_status_def with_status_def)

lemma str_empty_counted:
  "snd (process_storage_groups empty_info_sql_env 0 (JList [JStr ''SG1''])) = Inr 1"
  by (simp add: process_storage_groups_def empty_info_sql_env_def sample_sql_env_def always_def
        get_rdf_status_sql_def with_status_def store_result_def Let_def)

text \<open>
  Claim C5. Take a batch of \<open>N\<close> targets in which the request for target \<open>i\<close> raises
  and every other request gives status 200 with a JSON body. The result list has \<open>N\<close>
  entries; entry \<open>i\<close> pairs target \<open>i\<close> with the sentinel \<^verbatim>\<open>"Exception: "\<close> followed by
  the text of the exception; every other entry pairs its target with its body. The
  list is what is written to the JSON file when that file can be opened, and when
  both files can be opened and the CSV loop accepts the other bodies,
  \<^verbatim>\<open>process_batch\<close> returns \<open>N\<close>: the exception stays in the worker and the batch is
  not aborted.
\<close>

theorem one_failure_is_isolated:
  assumes "i < length batch"
    and "http_get env num (rdf_url (batch ! i)) = Inl e"
    and "\<forall>j<length batch. j \<noteq> i \<longrightarrow>
           http_get env num (rdf_url (batch ! j)) = Inr (with_status 200 (body j))"
  shows "length (batch_results (http_get env num) batch) = length batch
       \<and> batch_results (http_get env num) batch ! i
           = JDict [(batch ! i, JStr (''Exception: '' @ str_exn e))]
       \<and> (\<forall>j<length batch. j \<noteq> i \<longrightarrow>
             batch_results (http_get env num) batch ! j = JDict [(batch ! j, body j)])
       \<and> (can_open env (output_file num (strftime env num)) \<longrightarrow>
             Json_dump (JList (batch_results (http_get env num) batch))
               \<in> set (fst (process_batch env batch num)))
       \<and> (can_open env (output_file num (strftime env num))
            \<and> can_open env (csv_file num (strftime env num))
            \<and> (\<forall>j<length batch. j \<noteq> i \<longrightarrow> snd (csv_item (batch ! j, body j)) = None)
           \<longrightarrow> snd (process_batch env batch num) = Inr (length batch))"
proof -
  let ?g = "http_get env num"
  have fail: "get_rdf_status ?g (batch ! i) = JDict [(batch ! i, JStr (''Exception: '' @ str_exn e))]"
    using assms(2) by (simp add: get_rdf_status_def)
  have ok: "get_rdf_status ?g (batch ! j) = JDict [(batch ! j, body j)]"
    if "j < length batch" "j \<noteq> i" for j
    using assms(3) that by (simp add: get_rdf_status_def with_status_def)
  have 1: "length (batch_results ?g batch) = length batch"
    by (rule length_batch_results)
  have 2: "batch_results ?g batch ! i = JDict [(batch ! i, JStr (''Exception: '' @ str_exn e))]"
    using assms(1) fail by (simp add: batch_results_def)
  have 3: "\<forall>j<length batch. j \<noteq> i \<longrightarrow> batch_results ?g batch ! j = JDict [(batch ! j, body j)]"
    using ok by (simp add: batch_results_def)
  have 4: "can_open env (output_file num (strftime env num)) \<longrightarrow>
             Json_dump (JList (batch_results ?g batch)) \<in> set (fst (process_batch env batch num))"
    by (simp add: json_dump_in_process_batch)
  have 5: "snd (process_batch env batch num) = Inr (length batch)"
    if o: "can_open env (output_file num (strftime env num))"
      and c: "can_open env (csv_file num (strftime env num))"
      and w: "\<forall>j<length batch. j \<noteq> i \<longrightarrow> snd (csv_item (batch ! j, body j)) = None"
  proof -
    have "snd (csv_result (get_rdf_status ?g sg)) = None" if "sg \<in> set batch" for sg
    proof -
      from that obtain j where j: "j < length batch" "batch ! j = sg"
        by (auto simp: in_set_conv_nth)
      show ?thesis
      proof (cases "j = i")
        case True
        then show ?thesis
          using fail j by (simp add: csv_result_single csv_item_not_dict is_dict_def)
      next
        case False
        with w j(1) have "snd (csv_item (batch ! j, body j)) = None" by blast
        then show ?thesis
          using ok[OF j(1) False] j(2) by (simp add: csv_result_single)
      qed
    qed
    then show ?thesis using o c by (simp add: process_batch_returns_iff)
  qed
  from 1 2 3 4 5 show ?thesis by blast
qed

theorem one_failure_is_isolated_witness:
  "batch_results (http_get sample_env 1) [''SG1'', ''SG2'', ''SG3''] ! 1
     = JDict [(''SG2'', JStr ''Exception: timed out'')]
   \<and> batch_results (http_get sample_env 1) [''SG1'', ''SG2'', ''SG3''] ! 0 = JDict [(''SG1'', sample_body)]
   \<and> batch_results (http_get sample_env 1) [''SG1'', ''SG2'', ''SG3''] ! 2 = JDict [(''SG3'', sample_body)]
   \<and> snd (process_batch sample_env [''SG1'', ''SG2'', ''SG3''] 1) = Inr 3"
proof -
  let ?batch = "[''SG1'', ''SG2'', ''SG3'']"
  have a: "(1::nat) < length ?batch" by simp
  have b: "http_get sample_env 1 (rdf_url (?batch ! 1)) = Inl (Exn RequestException ''timed out'')"
    by (simp add: sample_env_def always_def sample_get_def)
  have c: "\<forall>j<length ?batch. j \<noteq> 1 \<longrightarrow>
             http_get sample_env 1 (rdf_url (?batch ! j)) = Inr (with_status 200 sample_body)"
    by (simp add: sample_env_def always_def sample_get_def rdf_url_inject All_less_Suc)
  have d: "can_open sample_env (output_file 1 (strftime sample_env 1))"
    "can_open sample_env (csv_file 1 (strftime sample_env 1))"
    by (simp_all add: sample_env_def always_def)
  have e: "\<forall>j<length ?batch. j \<noteq> 1 \<longrightarrow> snd (csv_item (?batch ! j, sample_body)) = None"
    by (simp add: csv_item_def sample_body_def dict_get_def csv_group_def)
  from one_failure_is_isolated [where env = sample_env and num = 1 and body = "\<lambda>j. sample_body", OF a b c]
    d e
  show ?thesis by (simp add: str_exn_def)
qed

text \<open>
  Claim C9. The result list of a batch has the length of the batch and, at every
  index \<open>i\<close>, a mapping with the single key \<open>batch ! i\<close>, whatever the request for that
  target did; the JSON file, when it can be opened, receives exactly this list and
  nothing else is dumped.
\<close>

theorem results_follow_batch_order:
  "length (batch_results (http_get env num) batch) = length batch
   \<and> (\<forall>i<length batch. \<exists>v. batch_results (http_get env num) batch ! i = JDict [(batch ! i, v)])
   \<and> (\<forall>v. Json_dump v \<in> set (fst (process_batch env batch num)) \<longleftrightarrow>
          can_open env (output_file num (strftime env num))
          \<and> v = JList (batch_results (http_get env num) batch))"
  by (simp add: length_batch_results json_dump_in_process_batch batch_results_def
        get_rdf_status_single_key)

theorem results_follow_batch_order_witness:
  "length (batch_results (http_get sample_env 1) [''SG1'', ''SG2'', ''SG3'']) = 3
   \<and> (\<exists>v. batch_results (http_get sample_env 1) [''SG1'', ''SG2'', ''SG3''] ! 1 = JDict [(''SG2'', v)])
   \<and> Json_dump (JList (batch_results (http_get sample_env 1) [''SG1'', ''SG2'', ''SG3'']))
        \<in> set (fst (process_batch sample_env [''SG1'', ''SG2'', ''SG3''] 1))"
proof -
  have d: "can_open sample_env (output_file 1 (strftime sample_env 1))"
    by (simp add: sample_env_def always_def)
  let ?batch = "[''SG1'', ''SG2'', ''SG3'']"
  note r = results_follow_batch_order [of sample_env 1 ?batch]
  from r have "\<forall>i<length ?batch. \<exists>v. batch_results (http_get sample_env 1) ?batch ! i
                  = JDict [(?batch ! i, v)]"
    by blast
  then have "(1::nat) < length ?batch \<longrightarrow>
      (\<exists>v. batch_results (http_get sample_env 1) ?batch ! 1 = JDict [(?batch ! 1, v)])"
    by blast
  then have 2: "\<exists>v. batch_results (http_get sample_env 1) ?batch ! 1 = JDict [(''SG2'', v)]"
    by simp
  from r have 1: "length (batch_results (http_get sample_env 1) ?batch) = 3" by simp
  from r d have 3: "Json_dump (JList (batch_results (http_get sample_env 1) ?batch))
        \<in> set (fst (process_batch sample_env ?batch 1))"
    by blast
  from 1 2 3 show ?thesis by blast
qed

text \<open>
  Claim C10 (as amended). Whenever \<^verbatim>\<open>process_batch\<close> returns, it returns the number of
  targets of the batch, and an entry whose value is an error string never makes the
  CSV loop raise, so failed targets are counted. It does not always return: it raises
  when an output file cannot be opened, and when a fetched body is a mapping whose
  \<^verbatim>\<open>'rdfGroupInfo'\<close> cannot be iterated or yields an element that is not a mapping.
  Whenever \<^verbatim>\<open>process_storage_groups\<close> returns, it returns the number of targets for
  which \<^verbatim>\<open>processed += 1\<close> was reached. These are exactly the targets whose response is
  a mapping with the key \<^verbatim>\<open>'rdfGroupInfo'\<close> whose value can be iterated and whose
  elements are all stored without an exception; a target whose fetch gave an error
  value is not among them.
\<close>

theorem processed_counts:
  "(\<forall>n. snd (process_batch env batch num) = Inr n \<longrightarrow> n = length batch)
   \<and> (\<forall>sg msg. get_rdf_status (http_get env num) sg = JDict [(sg, JStr msg)] \<longrightarrow>
          snd (csv_result (get_rdf_status (http_get env num) sg)) = None)
   \<and> (\<not> can_open env (output_file num (strftime env num))
        \<or> \<not> can_open env (csv_file num (strftime env num))
        \<or> (\<exists>sg\<in>set batch. \<exists>v. get_rdf_status (http_get env num) sg = JDict [(sg, v)] \<and> malformed v)
       \<longrightarrow> (\<exists>e. snd (process_batch env batch num) = Inl e))
   \<and> (\<forall>p. snd (process_storage_groups senv pass storage_groups) = Inr p \<longrightarrow>
          (\<exists>sgs. py_iter storage_groups = Inr sgs
             \<and> p = length (filter (\<lambda>sg. snd (store_result senv pass (datetime_now senv pass) sg
                                              (get_rdf_status_sql (fetch senv pass) sg))) sgs)))
   \<and> (\<forall>t sg result. snd (store_result senv pass t sg result) \<longleftrightarrow>
          (\<exists>d info groups. result = JDict d \<and> map_of d ''rdfGroupInfo'' = Some info
             \<and> py_iter info = Inr groups
             \<and> (\<forall>g\<in>set groups. snd (create_rdf_status_record senv pass t sg g) = None)))
   \<and> (\<forall>t sg msg. \<not> snd (store_result senv pass t sg (JDict [(''error'', JStr msg)])))"
proof -
  have 1: "\<forall>n. snd (process_batch env batch num) = Inr n \<longrightarrow> n = length batch"
    by (simp add: process_batch_returns_iff)
  have 2: "\<forall>sg msg. get_rdf_status (http_get env num) sg = JDict [(sg, JStr msg)] \<longrightarrow>
          snd (csv_result (get_rdf_status (http_get env num) sg)) = None"
    by (simp add: csv_result_single csv_item_not_dict is_dict_def)
  have 3: "\<not> can_open env (output_file num (strftime env num))
        \<or> \<not> can_open env (csv_file num (strftime env num))
        \<or> (\<exists>sg\<in>set batch. \<exists>v. get_rdf_status (http_get env num) sg = JDict [(sg, v)] \<and> malformed v)
       \<longrightarrow> (\<exists>e. snd (process_batch env batch num) = Inl e)"
    by (rule impI) (rule process_batch_raises)
  have 4: "\<forall>p. snd (process_storage_groups senv pass storage_groups) = Inr p \<longrightarrow>
          (\<exists>sgs. py_iter storage_groups = Inr sgs
             \<and> p = length (filter (\<lambda>sg. snd (store_result senv pass (datetime_now senv pass) sg
                                              (get_rdf_status_sql (fetch senv pass) sg))) sgs))"
    using process_storage_groups_count by blast
  have 5: "\<forall>t sg result. snd (store_result senv pass t sg result) \<longleftrightarrow>
          (\<exists>d info groups. result = JDict d \<and> map_of d ''rdfGroupInfo'' = Some info
             \<and> py_iter info = Inr groups
             \<and> (\<forall>g\<in>set groups. snd (create_rdf_status_record senv pass t sg g) = None))"
    by (intro allI) (rule store_result_counted_iff)
  have 6: "\<forall>t sg msg. \<not> snd (store_result senv pass t sg (JDict [(''error'', JStr msg)]))"
    by (simp add: store_result_error_value)
  from 1 2 3 4 5 6 show ?thesis by (intro conjI)
qed

theorem processed_counts_witness:
  "snd (process_batch sample_env [''SG1'', ''SG2'', ''SG3''] 1) = Inr (length [''SG1'', ''SG2'', ''SG3''])
   \<and> (\<exists>e. snd (process_batch malformed_env [''SG1''] 1) = Inl e)
   \<and> snd (process_storage_groups sample_sql_env 0 (JList [JStr ''SG1'', JStr ''SG2''])) = Inr 1
   \<and> length (filter (\<lambda>sg. snd (store_result sample_sql_env 0 (datetime_now sample_sql_env 0) sg
                                   (get_rdf_status_sql (fetch sample_sql_env 0) sg)))
               [JStr ''SG1'', JStr ''SG2'']) = 1
   \<and> snd (store_result sample_sql_env 0 (Datetime ''t'') (JStr ''SG1'') (JDict [(''rdfGroupInfo'', JList [])]))"
proof -
  let ?batch = "[''SG1'', ''SG2'', ''SG3'']"
  let ?sgs = "JList [JStr ''SG1'', JStr ''SG2'']"
  note r = processed_counts [of sample_env ?batch 1 sample_sql_env 0 ?sgs]
  note A = r [THEN conjunct1]
  note D = r [THEN conjunct2, THEN conjunct2, THEN conjunct2, THEN conjunct1]
  note E = r [THEN conjunct2, THEN conjunct2, THEN conjunct2, THEN conjunct2, THEN conjunct1]
  from A sample_batch_returns have "(3::nat) = length ?batch" by blast
  with sample_batch_returns
  have 1: "snd (process_batch sample_env ?batch 1) = Inr (length ?batch)" by simp
  note C = processed_counts [of malformed_env "[''SG1'']" 1 sample_sql_env 0 ?sgs,
             THEN conjunct2, THEN conjunct2, THEN conjunct1]
  have "malformed (JDict [(''rdfGroupInfo'', JList [JInt 1])])"
    by (simp add: malformed_def dict_get_def is_dict_def)
  with malformed_status
  have "\<exists>sg\<in>set [''SG1'']. \<exists>v. get_rdf_status (http_get malformed_env 1) sg = JDict [(sg, v)]
          \<and> malformed v"
    by simp
  with C have 2: "\<exists>e. snd (process_batch malformed_env [''SG1''] 1) = Inl e" by blast
  from D sample_pass_returns [of 0]
  have "\<exists>sgs. py_iter ?sgs = Inr sgs
           \<and> 1 = length (filter (\<lambda>sg. snd (store_result sample_sql_env 0 (datetime_now sample_sql_env 0) sg
                                            (get_rdf_status_sql (fetch sample_sql_env 0) sg))) sgs)"
    by blast
  then have 3: "length (filter (\<lambda>sg. snd (store_result sample_sql_env 0 (datetime_now sample_sql_env 0) sg
                                   (get_rdf_status_sql (fetch sample_sql_env 0) sg)))
               [JStr ''SG1'', JStr ''SG2'']) = 1"
    by simp
  have "\<exists>d info groups. JDict [(''rdfGroupInfo'', JList [])] = JDict d
          \<and> map_of d ''rdfGroupInfo'' = Some info \<and> py_iter info = Inr groups
          \<and> (\<forall>g\<in>set groups. snd (create_rdf_status_record sample_sql_env 0 (Datetime ''t'')
                                     (JStr ''SG1'') g) = None)"
    by simp
  with E have 4: "snd (store_result sample_sql_env 0 (Datetime ''t'') (JStr ''SG1'')
                        (JDict [(''rdfGroupInfo'', JList [])]))"
    by blast
  from 1 2 sample_pass_returns [of 0] 3 4 show ?thesis by blast
qed

text \<open>
  The claim as first stated has \<^verbatim>\<open>process_batch\<close> return the number of targets always,
  and has the SQL count leave out every target whose response has the wrong shape. On
  a response with status 200 whose \<^verbatim>\<open>'rdfGroupInfo'\<close> list holds a number the CSV loop
  raises AttributeError after the JSON file is written, and nothing is returned. A
  response whose \<^verbatim>\<open>'rdfGroupInfo'\<close> is the empty string has the key and yields no
  element, so the SQL variant counts its target.
\<close>

theorem process_batch_malformed_counterexample:
  "snd (process_batch malformed_env [''SG1''] 1) = Inl (Exn AttributeError ''object has no attribute get'')
   \<and> snd (process_batch malformed_env [''SG1''] 1) \<noteq> Inr (length [''SG1''])
   \<and> get_rdf_status_sql (fetch empty_info_sql_env 0) (JStr ''SG1'') = JDict [(''rdfGroupInfo'', JStr '''')]
   \<and> snd (process_storage_groups empty_info_sql_env 0 (JList [JStr ''SG1''])) = Inr 1"
  by (simp add: str_empty_counted)
     (simp add: process_batch_def malformed_env_def always_def batch_results_def get_rdf_status_def
        with_status_def csv_result_def csv_item_def csv_group_def dict_get_def Let_def
        empty_info_sql_env_def sample_sql_env_def get_rdf_status_sql_def)

section \<open>Properties of the loop over the batches\<close>

lemma no_sleep_in_process_batch: "Sleep d \<notin> set (fst (process_batch env batch num))"
proof -
  let ?rs = "batch_results (http_get env num) batch"
  obtain rows r where f: "for_each csv_result ?rs = (rows, r)" by (cases "for_each csv_result ?rs")
  have rows: "Sleep d \<notin> set rows"
    using csv_rows_events[of "Sleep d" ?rs] f by auto
  show ?thesis
    using rows by (cases r) (auto simp: process_batch_def Let_def f)
qed

lemma run_batches_trace:
  "fst (run_batches env n i batches) =
     concat (map (\<lambda>kb. completed_batch env n kb @ (if fst kb < n then [Sleep 10] else []))
                 (takeWhile (batch_succeeds env) (enumerate i batches)))
     @ (case dropWhile (batch_succeeds env) (enumerate i batches) of
          [] \<Rightarrow> []
        | kb # rest \<Rightarrow> aborted_batch env n kb)"
proof (induction batches arbitrary: i)
  case Nil
  show ?case by simp
next
  case (Cons b bs)
  obtain ev r where p: "process_batch env b i = (ev, r)" by (cases "process_batch env b i")
  show ?case
  proof (cases r)
    case (Inl e)
    then have "\<not> batch_succeeds env (i, b)" using p by (simp add: batch_succeeds_def)
    then show ?thesis
      using p Inl by (simp add: aborted_batch_def)
  next
    case (Inr processed)
    then have "snd (process_batch env b i) = Inr processed" using p by simp
    then have len: "processed = length b" by (simp add: process_batch_returns_iff)
    obtain ev' r' where q: "run_batches env n (Suc i) bs = (ev', r')"
      by (cases "run_batches env n (Suc i) bs")
    from Cons.IH[of "Suc i"] q have ih: "ev' =
       concat (map (\<lambda>kb. completed_batch env n kb @ (if fst kb < n then [Sleep 10] else []))
                 (takeWhile (batch_succeeds env) (enumerate (Suc i) bs)))
       @ (case dropWhile (batch_succeeds env) (enumerate (Suc i) bs) of
            [] \<Rightarrow> []
          | kb # rest \<Rightarrow> aborted_batch env n kb)"
      by simp
    have ok: "batch_succeeds env (i, b)" using p Inr by (simp add: batch_succeeds_def)
    have seg: "completed_batch env n (i, b) =
        processing_line i n (length b) # ev @ [completed_line i (length b)]"
      using p by (simp add: completed_batch_def)
    show ?thesis
      using p Inr q len ok by (simp add: seg ih)
  qed
qed

lemma sample_batches_succeed:
  "batch_succeeds sample_env (1, [''SG1'', ''SG2''])" "batch_succeeds sample_env (2, [''SG3''])"
proof -
  have "snd (process_batch sample_env [''SG1'', ''SG2''] 1) = Inr 2"
    by (simp add: process_batch_returns_iff sample_env_def always_def get_rdf_status_def
          sample_get_def rdf_url_inject with_status_def csv_result_def csv_item_def csv_group_def
          dict_get_def sample_body_def)
  then show "batch_succeeds sample_env (1, [''SG1'', ''SG2''])"
    by (simp add: batch_succeeds_def)
  have "snd (process_batch sample_env [''SG3''] 2) = Inr 1"
    by (simp add: process_batch_returns_iff sample_env_def always_def get_rdf_status_def
          sample_get_def rdf_url_inject with_status_def csv_result_def csv_item_def csv_group_def
          dict_get_def sample_body_def)
  then show "batch_succeeds sample_env (2, [''SG3''])"
    by (simp add: batch_succeeds_def)
qed

lemma main_rdf_runs:
  "\<exists>batches. split_batches BATCH_SIZE storage_groups = Inr batches
      \<and> main_rdf env storage_groups = run_batches env (length batches) 1 batches"
  by (simp add: main_rdf_def split_batches_def BATCH_SIZE_def)

text \<open>
  Claim C6. The trace of the loop over the batches, numbered from 1 to
  \<open>length batches\<close>, is this: for each batch that returns, in order, the line announcing
  it, the events of \<^verbatim>\<open>process_batch\<close> (all requests of the batch and its two files), the
  line reporting it and then, unless it is the last batch, the delay of 10 seconds;
  the events of the next batch follow the delay. No delay follows the last batch, and
  \<^verbatim>\<open>process_batch\<close> itself never sleeps, so the delays between the batches are the
  only ones. A batch on which \<^verbatim>\<open>process_batch\<close> raises ends the trace there.
\<close>

theorem delay_between_batches:
  "fst (run_batches env (length batches) 1 batches) =
     concat (map (\<lambda>kb. completed_batch env (length batches) kb
                         @ (if fst kb < length batches then [Sleep 10] else []))
                 (takeWhile (batch_succeeds env) (enumerate 1 batches)))
     @ (case dropWhile (batch_succeeds env) (enumerate 1 batches) of
          [] \<Rightarrow> []
        | kb # rest \<Rightarrow> aborted_batch env (length batches) kb)
   \<and> map fst (enumerate 1 batches) = [1..<Suc (length batches)]
   \<and> (\<forall>batch num d. Sleep d \<notin> set (fst (process_batch env batch num)))"
  by (simp add: run_batches_trace no_sleep_in_process_batch)

theorem delay_between_batches_witness:
  "fst (run_batches sample_env 2 1 [[''SG1'', ''SG2''], [''SG3'']]) =
     completed_batch sample_env 2 (1, [''SG1'', ''SG2'']) @ [Sleep 10]
       @ completed_batch sample_env 2 (2, [''SG3''])"
proof -
  let ?bs = "[[''SG1'', ''SG2''], [''SG3'']]"
  have len: "length ?bs = 2" by simp
  have e: "enumerate 1 ?bs = [(1, [''SG1'', ''SG2'']), (2, [''SG3''])]" by simp
  have tw: "takeWhile (batch_succeeds sample_env) [(1, [''SG1'', ''SG2'']), (2, [''SG3''])]
              = [(1, [''SG1'', ''SG2'']), (2, [''SG3''])]"
    and dw: "dropWhile (batch_succeeds sample_env) [(1, [''SG1'', ''SG2'']), (2, [''SG3''])] = []"
    using sample_batches_succeed by simp_all
  note t = delay_between_batches [of sample_env ?bs, THEN conjunct1, unfolded len e tw dw]
  show ?thesis using t by (simp del: run_batches.simps)
qed

section \<open>Properties of the collector loop\<close>

lemma sleeps_append: "sleeps (xs @ ys) = sleeps xs @ sleeps ys"
  by (induction xs rule: sleeps.induct) simp_all

lemma sleeps_none: "(\<forall>d. Time_sleep d \<notin> set evs) \<Longrightarrow> sleeps evs = []"
  by (induction evs rule: sleeps.induct) auto

lemma create_record_events:
  "e \<in> set (fst (create_rdf_status_record env pass t sg g)) \<Longrightarrow> \<exists>r. e = Db_insert r"
  by (cases g) (auto simp: create_rdf_status_record_def Let_def split: sum.splits option.splits)

lemma store_result_events:
  "e \<in> set (fst (store_result env pass t sg result)) \<Longrightarrow> (\<exists>l. e = Log l) \<or> (\<exists>r. e = Db_insert r)"
proof -
  have fe: "\<And>groups ev x. for_each (create_rdf_status_record env pass t sg) groups = (ev, x) \<Longrightarrow>
      e \<in> set ev \<Longrightarrow> \<exists>r. e = Db_insert r"
    using for_each_events[of e "create_rdf_status_record env pass t sg"] create_record_events
    by (metis fst_conv)
  assume "e \<in> set (fst (store_result env pass t sg result))"
  then show ?thesis
    by (auto simp: store_result_def split: sum.splits if_splits prod.splits option.splits dest: fe)
qed

lemma pass_events:
  assumes "e \<in> set (fst (process_storage_groups env pass sgs))"
  shows "e = Db_connect \<or> e = Db_commit \<or> e = Db_close \<or> (\<exists>t. e = Poll t) \<or> (\<exists>l. e = Log l)
         \<or> (\<exists>r. e = Db_insert r)"
  using assms
  by (auto simp: process_storage_groups_def Let_def split: option.splits sum.splits
           dest: store_result_events)

lemma no_sleep_in_pass: "sleeps (fst (process_storage_groups env pass sgs)) = []"
  by (rule sleeps_none) (auto dest: pass_events)

lemma collector_sleeps:
  "sleeps (fst (collector_loop env sgs pass fuel)) =
     map (\<lambda>k. max 0 (collection_interval env - processing_time env k))
         [pass..<pass + passes_completed env sgs pass fuel]"
proof (induction fuel arbitrary: pass)
  case 0
  show ?case by simp
next
  case (Suc fuel)
  obtain ev r where p: "process_storage_groups env pass sgs = (ev, r)"
    by (cases "process_storage_groups env pass sgs")
  have ns: "sleeps ev = []" using no_sleep_in_pass[of env pass sgs] p by simp
  show ?case
  proof (cases r)
    case (Inl e)
    then show ?thesis using p ns by simp
  next
    case (Inr processed)
    obtain ev' out where q: "collector_loop env sgs (Suc pass) fuel = (ev', out)"
      by (cases "collector_loop env sgs (Suc pass) fuel")
    have ih: "sleeps ev' = map (\<lambda>k. max 0 (collection_interval env - processing_time env k))
         [Suc pass..<Suc pass + passes_completed env sgs (Suc pass) fuel]"
      using Suc.IH[of "Suc pass"] q by simp
    have pc: "passes_completed env sgs pass (Suc fuel) = Suc (passes_completed env sgs (Suc pass) fuel)"
      using p Inr by simp
    have up: "[pass..<pass + Suc (passes_completed env sgs (Suc pass) fuel)] =
        pass # [Suc pass..<Suc pass + passes_completed env sgs (Suc pass) fuel]"
      by (simp add: upt_conv_Cons)
    have "sleeps (fst (collector_loop env sgs pass (Suc fuel))) =
        max 0 (collection_interval env - processing_time env pass) # sleeps ev'"
      using p Inr q ns by (simp add: Let_def sleeps_append processing_time_def)
    then show ?thesis
      by (simp only: pc up ih list.map)
  qed
qed

lemma collector_trace:
  "fst (collector_loop env sgs pass fuel) =
     concat (map (\<lambda>k. Log Starting_collection # fst (process_storage_groups env k sgs)
                        @ [Log (Completed_collection (processed_in env sgs k)),
                           Log (Next_collection (max 0 (collection_interval env - processing_time env k))),
                           Time_sleep (max 0 (collection_interval env - processing_time env k))])
                 [pass..<pass + passes_completed env sgs pass fuel])
     @ (if passes_completed env sgs pass fuel < fuel
        then Log Starting_collection
               # fst (process_storage_groups env (pass + passes_completed env sgs pass fuel) sgs)
        else [])"
proof (induction fuel arbitrary: pass)
  case 0
  show ?case by simp
next
  case (Suc fuel)
  obtain ev r where p: "process_storage_groups env pass sgs = (ev, r)"
    by (cases "process_storage_groups env pass sgs")
  show ?case
  proof (cases r)
    case (Inl e)
    then show ?thesis using p by simp
  next
    case (Inr processed)
    obtain ev' out where q: "collector_loop env sgs (Suc pass) fuel = (ev', out)"
      by (cases "collector_loop env sgs (Suc pass) fuel")
    let ?m = "passes_completed env sgs (Suc pass) fuel"
    have pc: "passes_completed env sgs pass (Suc fuel) = Suc ?m"
      using p Inr by simp
    have up: "[pass..<pass + Suc ?m] = pass # [Suc pass..<Suc pass + ?m]"
      by (simp add: upt_conv_Cons)
    have pr: "processed_in env sgs pass = processed"
      using p Inr by (simp add: processed_in_def)
    have ih: "ev' = fst (collector_loop env sgs (Suc pass) fuel)" using q by simp
    have step: "fst (collector_loop env sgs pass (Suc fuel)) =
        (Log Starting_collection # fst (process_storage_groups env pass sgs)
           @ [Log (Completed_collection (processed_in env sgs pass)),
              Log (Next_collection (max 0 (collection_interval env - processing_time env pass))),
              Time_sleep (max 0 (collection_interval env - processing_time env pass))])
        @ fst (collector_loop env sgs (Suc pass) fuel)"
      using p Inr q by (simp add: Let_def processing_time_def pr)
    show ?thesis
      unfolding step Suc.IH[of "Suc pass"] pc up by simp
  qed
qed

text \<open>
  Claim C3. With \<open>I\<close> the configured interval and \<open>P k\<close> the processing time measured in
  pass \<open>k\<close>, the durations the loop sleeps are \<open>max 0 (I - P k)\<close>, one after each pass
  that returns, in order; none of them is negative, and the duration is 0 after a pass
  with \<open>P k > I\<close>. In the trace each pass that returns is followed by the line
  announcing the sleep and by the sleep, and the next pass starts after it.
\<close>

theorem sleep_compensation:
  "sleeps (fst (collector_loop env storage_groups 0 fuel)) =
     map (\<lambda>k. max 0 (collection_interval env - processing_time env k))
         [0..<passes_completed env storage_groups 0 fuel]
   \<and> (\<forall>d\<in>set (sleeps (fst (collector_loop env storage_groups 0 fuel))). 0 \<le> d)
   \<and> (\<forall>k<passes_completed env storage_groups 0 fuel.
         collection_interval env < processing_time env k \<longrightarrow>
         sleeps (fst (collector_loop env storage_groups 0 fuel)) ! k = 0)
   \<and> fst (collector_loop env storage_groups 0 fuel) =
       concat (map (\<lambda>k. Log Starting_collection # fst (process_storage_groups env k storage_groups)
                        @ [Log (Completed_collection (processed_in env storage_groups k)),
                           Log (Next_collection (max 0 (collection_interval env - processing_time env k))),
                           Time_sleep (max 0 (collection_interval env - processing_time env k))])
                 [0..<passes_completed env storage_groups 0 fuel])
       @ (if passes_completed env storage_groups 0 fuel < fuel
          then Log Starting_collection
                 # fst (process_storage_groups env (passes_completed env storage_groups 0 fuel)
                          storage_groups)
          else [])"
proof -
  note s = collector_sleeps [of env storage_groups 0 fuel]
  have 1: "sleeps (fst (collector_loop env storage_groups 0 fuel)) =
     map (\<lambda>k. max 0 (collection_interval env - processing_time env k))
         [0..<passes_completed env storage_groups 0 fuel]"
    using s by simp
  have 2: "\<forall>d\<in>set (sleeps (fst (collector_loop env storage_groups 0 fuel))). 0 \<le> d"
    unfolding 1 by auto
  have 3: "\<forall>k<passes_completed env storage_groups 0 fuel.
         collection_interval env < processing_time env k \<longrightarrow>
         sleeps (fst (collector_loop env storage_groups 0 fuel)) ! k = 0"
    unfolding 1 by auto
  note t = collector_trace [of env storage_groups 0 fuel]
  from 1 2 3 t show ?thesis by (simp only: add_0 simp_thms)
qed

theorem sleep_compensation_witness:
  "sleeps (fst (collector_loop sample_sql_env (JList [JStr ''SG1'', JStr ''SG2'']) 0 2)) = [3500, 0]"
proof -
  let ?sgs = "JList [JStr ''SG1'', JStr ''SG2'']"
  have pc: "passes_completed sample_sql_env ?sgs 0 2 = 2"
    by (simp add: numeral_2_eq_2 sample_pass_returns)
  have pt: "processing_time sample_sql_env 0 = 100" "processing_time sample_sql_env (Suc 0) = 4100"
    by (simp_all add: processing_time_def sample_sql_env_def sample_clock_def)
  have ci: "collection_interval sample_sql_env = 3600"
    by (simp add: sample_sql_env_def COLLECTION_INTERVAL_def)
  have "[0..<2] = [0, 1::nat]" by (simp add: upt_rec)
  with sleep_compensation [of sample_sql_env ?sgs 2, THEN conjunct1, unfolded pc]
  show ?thesis by (simp add: pt ci)
qed

text \<open>
  Claim C7. If the startup inventory request fails (it raises, or its status code is
  not 200), \<^verbatim>\<open>main\<close> is over before the loop, whatever number of passes it is given: its
  trace holds no poll, no database event, no sleep and no line of the loop. If the
  trace holds any such event, or the loop is still running, the inventory request
  returned a response with status code 200.
\<close>

theorem inventory_failure_is_fatal:
  "(inventory_failed env \<longrightarrow>
      snd (main_sql env fuel) \<noteq> Running \<and> (\<forall>ev\<in>set (fst (main_sql env fuel)). \<not> loop_event ev))
   \<and> ((\<exists>ev\<in>set (fst (main_sql env fuel)). loop_event ev) \<or> snd (main_sql env fuel) = Running \<longrightarrow>
        (\<exists>response. inventory_reply env = Inr response \<and> status_code response = 200))"
proof -
  have 1: "snd (main_sql env fuel) \<noteq> Running \<and> (\<forall>ev\<in>set (fst (main_sql env fuel)). \<not> loop_event ev)"
    if "inventory_failed env"
    using that by (auto simp: inventory_failed_def main_sql_def split: sum.splits)
  have 2: "\<exists>response. inventory_reply env = Inr response \<and> status_code response = 200"
    if "\<not> inventory_failed env"
    using that by (auto simp: inventory_failed_def split: sum.splits)
  from 1 2 show ?thesis by blast
qed

theorem inventory_failure_is_fatal_witness:
  "snd (main_sql failing_sql_env 3) \<noteq> Running
   \<and> \<not> list_ex loop_event (fst (main_sql failing_sql_env 3))
   \<and> (\<exists>response. inventory_reply sample_sql_env = Inr response \<and> status_code response = 200)"
proof -
  have f: "inventory_failed failing_sql_env"
    by (simp add: inventory_failed_def failing_sql_env_def with_status_def)
  from inventory_failure_is_fatal [of failing_sql_env 3, THEN conjunct1] f
  have 1: "snd (main_sql failing_sql_env 3) \<noteq> Running"
    and 2: "\<not> list_ex loop_event (fst (main_sql failing_sql_env 3))"
    by (simp_all add: list_ex_iff)
  have "Log Starting_collection \<in> set (fst (main_sql sample_sql_env 1))"
    by (auto simp: main_sql_def sample_sql_env_def with_status_def Let_def
             split: prod.splits sum.splits)
  then have "\<exists>ev\<in>set (fst (main_sql sample_sql_env 1)). loop_event ev"
    by (rule bexI [rotated]) simp
  with inventory_failure_is_fatal [of sample_sql_env 1, THEN conjunct2]
  have 3: "\<exists>response. inventory_reply sample_sql_env = Inr response \<and> status_code response = 200"
    by blast
  from 1 2 3 show ?thesis by blast
qed

section \<open>Properties of the relational sink\<close>

lemma take_within: "j \<le> length xs \<Longrightarrow> take j (xs @ ys) = take j xs"
  by simp

lemma db_run_append: "db_run s (xs @ ys) = db_run (db_run s xs) ys"
  by (simp add: db_run_def)

lemma committed_without_commit:
  "Db_commit \<notin> set evs \<Longrightarrow> committed (db_run s evs) = committed s"
proof (induction evs arbitrary: s)
  case Nil
  show ?case by (simp add: db_run_def)
next
  case (Cons ev evs)
  then have "committed (db_run (db_step s ev) evs) = committed (db_step s ev)" by simp
  moreover have "committed (db_step s ev) = committed s"
    using Cons.prems by (cases "(s, ev)" rule: db_step.cases) simp_all
  ultimately show ?case by (simp add: db_run_def)
qed

lemma db_run_quiet:
  "\<forall>e\<in>set evs. quiet e \<Longrightarrow>
     committed (db_run s evs) = committed s \<and> pending (db_run s evs) = pending s @ inserts evs"
proof (induction evs arbitrary: s)
  case Nil
  show ?case by (simp add: db_run_def)
next
  case (Cons ev evs)
  then have ih: "committed (db_run (db_step s ev) evs) = committed (db_step s ev)
      \<and> pending (db_run (db_step s ev) evs) = pending (db_step s ev) @ inserts evs"
    by simp
  have "quiet ev" using Cons.prems by simp
  then show ?case
    using ih by (cases ev) (simp_all add: db_run_def)
qed

lemma inserts_quiet_connect: "inserts (Db_connect # evs) = inserts evs"
  by simp

lemma pass_shape:
  assumes "snd (process_storage_groups env pass sgs) = Inr p"
  shows "\<exists>body. fst (process_storage_groups env pass sgs) = (Db_connect # body) @ [Db_commit, Db_close]
           \<and> (\<forall>e\<in>set body. quiet e)"
proof -
  from assms obtain targets where t: "py_iter sgs = Inr targets"
    and c: "connect_error env pass = None" and m: "commit_error env pass = None"
    by (auto simp: process_storage_groups_def Let_def split: option.splits sum.splits)
  let ?stored = "map (\<lambda>sg. store_result env pass (datetime_now env pass) sg
                          (get_rdf_status_sql (fetch env pass) sg)) targets"
  let ?body = "map Poll targets @ concat (map fst ?stored)"
  have "fst (process_storage_groups env pass sgs) = (Db_connect # ?body) @ [Db_commit, Db_close]"
    using t c m by (simp add: process_storage_groups_def Let_def)
  moreover have "\<forall>e\<in>set ?body. quiet e"
    by (auto dest: store_result_events)
  ultimately show ?thesis by blast
qed

lemma pass_raises_no_commit:
  assumes "snd (process_storage_groups env pass sgs) = Inl e"
  shows "Db_commit \<notin> set (fst (process_storage_groups env pass sgs))"
  using assms
  by (auto simp: process_storage_groups_def Let_def split: option.splits sum.splits
           dest: store_result_events)

lemma sample_pass_length:
  "length (fst (process_storage_groups sample_sql_env 0 (JList [JStr ''SG1'', JStr ''SG2'']))) = 7"
  by (simp add: process_storage_groups_def sample_sql_env_def always_def sample_fetch_def
        get_rdf_status_sql_def with_status_def store_result_def sample_body_def
        create_rdf_status_record_def parse_last_sync_def dict_get_def Let_def)

text \<open>
  Claim C8. The events of a pass that returns end with the commit and the closing of
  the connection, and no commit comes earlier: one commit, after all inserts, and it
  leaves committed the rows inserted in the pass. If the pass is cut off at any point
  before that commit, or raises, the committed rows are the ones from before the
  pass.
\<close>

theorem one_commit_per_pass:
  "(\<forall>p. snd (process_storage_groups env pass sgs) = Inr p \<longrightarrow>
      (\<exists>pre. fst (process_storage_groups env pass sgs) = pre @ [Db_commit, Db_close]
         \<and> Db_commit \<notin> set pre
         \<and> committed (db_run s (fst (process_storage_groups env pass sgs)))
             = committed s @ inserts pre
         \<and> (\<forall>j\<le>length pre.
               committed (db_crash (db_run s (take j (fst (process_storage_groups env pass sgs)))))
                 = committed s)))
   \<and> (\<forall>e. snd (process_storage_groups env pass sgs) = Inl e \<longrightarrow>
        Db_commit \<notin> set (fst (process_storage_groups env pass sgs))
        \<and> committed (db_crash (db_run s (fst (process_storage_groups env pass sgs)))) = committed s)"
proof (intro conjI allI impI)
  fix p assume "snd (process_storage_groups env pass sgs) = Inr p"
  then obtain body where
    sh: "fst (process_storage_groups env pass sgs) = (Db_connect # body) @ [Db_commit, Db_close]"
    and q: "\<forall>e\<in>set body. quiet e"
    using pass_shape by blast
  let ?pre = "Db_connect # body"
  have nc: "Db_commit \<notin> set ?pre" using q by auto
  have run_pre: "committed (db_run s ?pre) = committed s \<and> pending (db_run s ?pre) = inserts body"
    using db_run_quiet[OF q, of "db_step s Db_connect"] by (simp add: db_run_def)
  have full: "committed (db_run s (?pre @ [Db_commit, Db_close])) = committed s @ inserts ?pre"
    using run_pre by (simp add: db_run_append) (simp add: db_run_def)
  have crash: "committed (db_crash (db_run s (take j (?pre @ [Db_commit, Db_close])))) = committed s"
    if "j \<le> length ?pre" for j
  proof -
    have "take j (?pre @ [Db_commit, Db_close]) = take j ?pre" using that by (rule take_within)
    moreover have "Db_commit \<notin> set (take j ?pre)" using nc by (meson in_set_takeD)
    ultimately show ?thesis by (simp add: db_crash_def committed_without_commit)
  qed
  show "\<exists>pre. fst (process_storage_groups env pass sgs) = pre @ [Db_commit, Db_close]
         \<and> Db_commit \<notin> set pre
         \<and> committed (db_run s (fst (process_storage_groups env pass sgs)))
             = committed s @ inserts pre
         \<and> (\<forall>j\<le>length pre.
               committed (db_crash (db_run s (take j (fst (process_storage_groups env pass sgs)))))
                 = committed s)"
    unfolding sh using nc full crash by blast
next
  fix e assume r: "snd (process_storage_groups env pass sgs) = Inl e"
  then show "Db_commit \<notin> set (fst (process_storage_groups env pass sgs))"
    by (rule pass_raises_no_commit)
  then show "committed (db_crash (db_run s (fst (process_storage_groups env pass sgs)))) = committed s"
    by (simp add: db_crash_def committed_without_commit)
qed

theorem one_commit_per_pass_witness:
  "\<exists>pre. fst (process_storage_groups sample_sql_env 0 (JList [JStr ''SG1'', JStr ''SG2'']))
           = pre @ [Db_commit, Db_close]
     \<and> Db_commit \<notin> set pre
     \<and> committed (db_run empty_db (fst (process_storage_groups sample_sql_env 0
                                         (JList [JStr ''SG1'', JStr ''SG2''])))) = inserts pre
     \<and> committed (db_crash (db_run empty_db (take 4 (fst (process_storage_groups sample_sql_env 0
                                         (JList [JStr ''SG1'', JStr ''SG2''])))))) = []"
proof -
  let ?ev = "fst (process_storage_groups sample_sql_env 0 (JList [JStr ''SG1'', JStr ''SG2'']))"
  from one_commit_per_pass [of sample_sql_env 0 "JList [JStr ''SG1'', JStr ''SG2'']" empty_db,
        THEN conjunct1] sample_pass_returns [of 0]
  obtain pre where pre: "?ev = pre @ [Db_commit, Db_close]" "Db_commit \<notin> set pre"
    "committed (db_run empty_db ?ev) = committed empty_db @ inserts pre"
    "\<forall>j\<le>length pre. committed (db_crash (db_run empty_db (take j ?ev))) = committed empty_db"
    by blast
  have "length ?ev = length pre + 2" by (simp add: pre(1))
  then have "4 \<le> length pre" using sample_pass_length by simp
  with pre(4) have "committed (db_crash (db_run empty_db (take 4 ?ev))) = committed empty_db"
    by blast
  with pre(1,2,3) show ?thesis by (auto simp: empty_db_def)
qed

end
